theory Spec2Isabelle
  imports Complex_Main
begin

section \<open>The Flappy-Bird simulation core of \<open>game.py\<close>\<close>

text \<open>
  Numbers. Python's unbounded integers are \<open>int\<close>. The quantities that become Python
  floats during play (the bird's \<open>y\<close> and \<open>velocity\<close>, a pipe's \<open>x\<close> and
  \<open>speed\<close>, the engine's speeds) are modelled as exact rationals. The bird's values
  are multiples of \<open>1/2\<close>, and with constant speed (speed ramp 0, the default) the
  speed is 3 and every pipe position is a whole number; binary floating point
  represents such values of moderate size exactly, so there the model computes what the
  program computes. With a non-zero speed ramp the program rounds each operation and the
  model does not. The statement on the order of the pipe list, whose proof rests on exact
  subtraction, is therefore made for constant speed and whole-number positions; the other
  statements follow the program's tests and updates and use no law of arithmetic on pipe
  positions.

  Randomness. \<open>random.randint\<close> reads the global generator; the model takes the raw
  draw as an explicit argument \<open>r\<close>, one per call that may build a pipe.
\<close>

subsection \<open>Constants\<close>

definition WIDTH :: int where "WIDTH = 400"
definition HEIGHT :: int where "HEIGHT = 600"
definition FPS :: int where "FPS = 60"

subsection \<open>Library behaviour: \<open>random.randint\<close> and \<open>pygame.Rect\<close>\<close>

datatype error = ValueError

text \<open>
  \<open>random.randint(lo, hi)\<close> returns an integer of \<open>[lo, hi]\<close> and raises
  \<open>ValueError\<close> (empty range) when \<open>hi < lo\<close>. Every value of the range is the
  result for some draw \<open>r\<close>.
\<close>

definition randint :: "int \<Rightarrow> int \<Rightarrow> int \<Rightarrow> error + int" where
  "randint lo hi r = (if hi < lo then Inl ValueError else Inr (lo + r mod (hi - lo + 1)))"

text \<open>
  \<open>pygame.Rect\<close> stores four C integers; a float argument is converted by a C cast,
  that is truncated toward zero.
\<close>

record Rect =
  r_x :: int
  r_y :: int
  r_w :: int
  r_h :: int

definition trunc :: "rat \<Rightarrow> int" where
  "trunc q = (if 0 \<le> q then \<lfloor>q\<rfloor> else \<lceil>q\<rceil>)"

definition pygame_Rect :: "rat \<Rightarrow> rat \<Rightarrow> rat \<Rightarrow> rat \<Rightarrow> Rect" where
  "pygame_Rect rl rt rw rh = \<lparr>r_x = trunc rl, r_y = trunc rt, r_w = trunc rw, r_h = trunc rh\<rparr>"

text \<open>
  \<open>Rect.colliderect\<close> (pygame 2): a rectangle of zero width or height collides with
  nothing; otherwise the (normalised) extents must overlap strictly on both axes, so
  rectangles that only share an edge do not collide.
\<close>

definition colliderect :: "Rect \<Rightarrow> Rect \<Rightarrow> bool" where
  "colliderect A B =
     (if r_w A = 0 \<or> r_h A = 0 \<or> r_w B = 0 \<or> r_h B = 0 then False
      else min (r_x A) (r_x A + r_w A) < max (r_x B) (r_x B + r_w B) \<and>
           min (r_y A) (r_y A + r_h A) < max (r_y B) (r_y B + r_h B) \<and>
           max (r_x A) (r_x A + r_w A) > min (r_x B) (r_x B + r_w B) \<and>
           max (r_y A) (r_y A + r_h A) > min (r_y B) (r_y B + r_h B))"

subsection \<open>Bird\<close>

text \<open>Field names carry the prefix \<open>b_\<close> (bird), \<open>p_\<close> (pipe) or \<open>r_\<close>
  (rectangle), since \<open>x\<close> is a field of all three classes.\<close>

record Bird =
  b_x :: int
  b_y :: rat
  b_velocity :: rat
  b_gravity :: rat
  b_jump_strength :: rat
  b_size :: int

definition Bird_init :: Bird where
  "Bird_init = \<lparr>b_x = 80, b_y = of_int (HEIGHT div 2), b_velocity = 0, b_gravity = 1/2,
                b_jump_strength = -10, b_size = 30\<rparr>"

definition jump :: "Bird \<Rightarrow> Bird" where
  "jump b = b\<lparr>b_velocity := b_jump_strength b\<rparr>"

definition Bird_update :: "Bird \<Rightarrow> Bird" where
  "Bird_update b =
     (let v = b_velocity b + b_gravity b
      in b\<lparr>b_velocity := v, b_y := b_y b + v\<rparr>)"

definition get_rect :: "Bird \<Rightarrow> Rect" where
  "get_rect b =
     pygame_Rect (of_int (b_x b - b_size b div 2)) (b_y b - of_int (b_size b div 2))
                 (of_int (b_size b)) (of_int (b_size b))"

subsection \<open>Pipe\<close>

record Pipe =
  p_x :: rat
  p_width :: int
  p_gap :: int
  p_top_height :: int
  p_speed :: rat
  p_passed :: bool

definition Pipe_init :: "int \<Rightarrow> int \<Rightarrow> int \<Rightarrow> error + Pipe" where
  "Pipe_init x0 g r =
     (case randint 100 (HEIGHT - g - 100) r of
        Inl e \<Rightarrow> Inl e
      | Inr th \<Rightarrow> Inr \<lparr>p_x = of_int x0, p_width = 70, p_gap = g, p_top_height = th,
                       p_speed = 3, p_passed = False\<rparr>)"

definition Pipe_update :: "Pipe \<Rightarrow> Pipe" where
  "Pipe_update p = p\<lparr>p_x := p_x p - p_speed p\<rparr>"

definition collides_with :: "Pipe \<Rightarrow> Bird \<Rightarrow> bool" where
  "collides_with p b =
     (let bird_rect = get_rect b;
          top_pipe = pygame_Rect (p_x p) 0 (of_int (p_width p)) (of_int (p_top_height p));
          bottom_pipe = pygame_Rect (p_x p) (of_int (p_top_height p + p_gap p))
                          (of_int (p_width p)) (of_int (HEIGHT - p_top_height p - p_gap p))
      in colliderect bird_rect top_pipe \<or> colliderect bird_rect bottom_pipe)"

definition off_screen :: "Pipe \<Rightarrow> bool" where
  "off_screen p = (p_x p + of_int (p_width p) < 0)"

subsection \<open>The engine\<close>

text \<open>The window, caption and clock of the constructor belong to the presentation
  layer and carry no simulation state; they are left out of the record.\<close>

record Game =
  bird :: Bird
  pipes :: "Pipe list"
  score :: int
  game_over :: bool
  current_speed :: rat
  frames_elapsed :: int
  pipe_distance :: rat
  pipe_gap :: int
  speed_increase_rate :: rat
  base_speed :: rat

type_synonym state_tuple = "rat \<times> rat \<times> rat \<times> int \<times> int"

text \<open>The scan of \<open>get_state\<close>: the first pipe, in list order, with
  \<open>pipe.x + pipe.width > bird.x\<close>.\<close>

fun next_pipe :: "Bird \<Rightarrow> Pipe list \<Rightarrow> Pipe option" where
  "next_pipe b [] = None"
| "next_pipe b (p # ps) =
     (if p_x p + of_int (p_width p) > of_int (b_x b) then Some p else next_pipe b ps)"

definition get_state :: "Game \<Rightarrow> state_tuple" where
  "get_state g =
     (case next_pipe (bird g) (pipes g) of
        Some np \<Rightarrow> (b_y (bird g), b_velocity (bird g), p_x np - of_int (b_x (bird g)),
                    p_top_height np, p_top_height np + p_gap np)
      | None \<Rightarrow> (b_y (bird g), b_velocity (bird g), of_int WIDTH, HEIGHT div 2, HEIGHT))"

text \<open>\<open>reset\<close>. When \<open>Pipe(...)\<close> raises, the exception leaves \<open>reset\<close> and the
  model returns the error.\<close>

definition reset :: "int \<Rightarrow> Game \<Rightarrow> error + (Game \<times> state_tuple)" where
  "reset r g =
     (case Pipe_init (WIDTH + 200) (pipe_gap g) r of
        Inl e \<Rightarrow> Inl e
      | Inr p \<Rightarrow>
          (let g' = g\<lparr>bird := Bird_init, pipes := [p\<lparr>p_speed := base_speed g\<rparr>], score := 0,
                      game_over := False, current_speed := base_speed g,
                      frames_elapsed := 0\<rparr>
           in Inr (g', get_state g')))"

text \<open>The constructor stores the configuration and calls \<open>reset\<close>, which assigns every
  other field; the values given to those fields before the call are placeholders that
  \<open>reset\<close> overwrites.\<close>

definition FlappyBirdGame_init :: "rat \<Rightarrow> int \<Rightarrow> rat \<Rightarrow> int \<Rightarrow> error + Game" where
  "FlappyBirdGame_init pd pg rate r =
     (case reset r \<lparr>bird = Bird_init, pipes = [], score = 0, game_over = False,
                    current_speed = 3, frames_elapsed = 0, pipe_distance = pd,
                    pipe_gap = pg, speed_increase_rate = rate, base_speed = 3\<rparr> of
        Inl e \<Rightarrow> Inl e
      | Inr (g, s) \<Rightarrow> Inr g)"

text \<open>
  The pipe loop of \<open>step\<close>, one equation per iteration: assign the speed, move the
  pipe, test the collision (leaving the loop and \<open>step\<close> at once when it holds: the
  pipes behind keep their old state), then score the pipe. The result is the flag
  "left by collision", the pipe list and the score.
\<close>

fun pipes_loop :: "rat \<Rightarrow> Bird \<Rightarrow> Pipe list \<Rightarrow> int \<Rightarrow> bool \<times> Pipe list \<times> int" where
  "pipes_loop cs b [] sc = (False, [], sc)"
| "pipes_loop cs b (p # ps) sc =
     (let p1 = Pipe_update (p\<lparr>p_speed := cs\<rparr>)
      in if collides_with p1 b then (True, p1 # ps, sc)
         else
           (let scored = (\<not> p_passed p1 \<and> p_x p1 + of_int (p_width p1) < of_int (b_x b));
                p2 = (if scored then p1\<lparr>p_passed := True\<rparr> else p1);
                sc' = (if scored then sc + 1 else sc)
            in case pipes_loop cs b ps sc' of
                 (hit, ps', sc'') \<Rightarrow> (hit, p2 # ps', sc'')))"

text \<open>The spawn of \<open>step\<close>: \<open>len(pipes) == 0 or pipes[-1].x < WIDTH - pipe_distance\<close>.
  When \<open>Pipe(...)\<close> raises, the exception leaves \<open>step\<close> and the model returns the
  error.\<close>

definition spawn :: "int \<Rightarrow> rat \<Rightarrow> rat \<Rightarrow> int \<Rightarrow> Pipe list \<Rightarrow> error + Pipe list" where
  "spawn r cs pd pg ps =
     (if ps = [] \<or> p_x (last ps) < of_int WIDTH - pd
      then (case Pipe_init WIDTH pg r of
              Inl e \<Rightarrow> Inl e
            | Inr new_pipe \<Rightarrow> Inr (ps @ [new_pipe\<lparr>p_speed := cs\<rparr>]))
      else Inr ps)"

text \<open>\<open>step\<close> returns the new engine state with \<open>(next_state, reward, done)\<close>.\<close>

definition step :: "int \<Rightarrow> int \<Rightarrow> Game \<Rightarrow> error + (Game \<times> state_tuple \<times> int \<times> bool)" where
  "step r action g =
     (let b1 = (if action = 1 then jump (bird g) else bird g);
          b2 = Bird_update b1;
          fe = frames_elapsed g + 1;
          seconds_elapsed = of_int fe / of_int FPS;
          cs = base_speed g + seconds_elapsed * speed_increase_rate g;
          g1 = g\<lparr>bird := b2, frames_elapsed := fe, current_speed := cs\<rparr>
      in case pipes_loop cs b2 (pipes g) (score g) of
           (hit, ps, sc) \<Rightarrow>
             if hit
             then (let g2 = g1\<lparr>pipes := ps, score := sc, game_over := True\<rparr>
                   in Inr (g2, get_state g2, -1000, True))
             else
               (case spawn r cs (pipe_distance g) (pipe_gap g)
                       (filter (\<lambda>p. \<not> off_screen p) ps) of
                  Inl e \<Rightarrow> Inl e
                | Inr ps2 \<Rightarrow>
                    (let g2 = g1\<lparr>pipes := ps2, score := sc\<rparr>
                     in if b_y b2 > of_int HEIGHT \<or> b_y b2 < 0
                        then (let g3 = g2\<lparr>game_over := True\<rparr>
                              in Inr (g3, get_state g3, -1000, True))
                        else Inr (g2, get_state g2, 1, False))))"

subsection \<open>Derived notions used to state the properties\<close>

text \<open>One iteration of the pipe loop, in pieces: the pipe after the speed assignment and
  \<open>update\<close>; the scoring test on the moved pipe; the pipe as the iteration leaves it
  when there is no collision; "the moved pipe does not collide"; and the number of pipes
  of a list that the loop scores.\<close>

definition moved :: "rat \<Rightarrow> Pipe \<Rightarrow> Pipe" where
  "moved cs p = Pipe_update (p\<lparr>p_speed := cs\<rparr>)"

definition scores :: "Bird \<Rightarrow> Pipe \<Rightarrow> bool" where
  "scores b p1 = (\<not> p_passed p1 \<and> p_x p1 + of_int (p_width p1) < of_int (b_x b))"

definition tick :: "rat \<Rightarrow> Bird \<Rightarrow> Pipe \<Rightarrow> Pipe" where
  "tick cs b p = (if scores b (moved cs p) then (moved cs p)\<lparr>p_passed := True\<rparr> else moved cs p)"

definition clear :: "rat \<Rightarrow> Bird \<Rightarrow> Pipe \<Rightarrow> bool" where
  "clear cs b p = (\<not> collides_with (moved cs p) b)"

definition gained :: "rat \<Rightarrow> Bird \<Rightarrow> Pipe list \<Rightarrow> int" where
  "gained cs b ps = int (length (filter (\<lambda>p. scores b (moved cs p)) ps))"

text \<open>The first three phases of \<open>step\<close>: the bird after the action and \<open>update\<close>, the
  recomputed speed, and the engine state before the pipe loop.\<close>

definition moved_bird :: "int \<Rightarrow> Game \<Rightarrow> Bird" where
  "moved_bird action g = Bird_update (if action = 1 then jump (bird g) else bird g)"

definition ramp_speed :: "Game \<Rightarrow> rat" where
  "ramp_speed g =
     base_speed g + (of_int (frames_elapsed g + 1) / of_int FPS) * speed_increase_rate g"

definition ticked :: "int \<Rightarrow> Game \<Rightarrow> Game" where
  "ticked action g = g\<lparr>bird := moved_bird action g, frames_elapsed := frames_elapsed g + 1,
                        current_speed := ramp_speed g\<rparr>"

text \<open>"Some pipe collides with the bird after its own position update" in this step.\<close>

definition hits :: "int \<Rightarrow> Game \<Rightarrow> bool" where
  "hits action g = (\<exists>p \<in> set (pipes g). \<not> clear (ramp_speed g) (moved_bird action g) p)"

definition out_of_bounds :: "Bird \<Rightarrow> bool" where
  "out_of_bounds b = (b_y b > of_int HEIGHT \<or> b_y b < 0)"

text \<open>The engine state a step leaves behind when it ends in a collision: the pipes
  before the first colliding one are moved and scored, the colliding one is moved, the
  ones behind it are untouched.\<close>

definition after_hit :: "int \<Rightarrow> Game \<Rightarrow> Game" where
  "after_hit action g =
     (let cs = ramp_speed g; b = moved_bird action g;
          pre = takeWhile (clear cs b) (pipes g)
      in (ticked action g)
           \<lparr>pipes := map (tick cs b) pre @
                        (case dropWhile (clear cs b) (pipes g) of
                           [] \<Rightarrow> [] | p # post \<Rightarrow> moved cs p # post),
            score := score g + gained cs b pre, game_over := True\<rparr>)"

text \<open>The pipes that survive the removal of a step without collision, and the engine
  state after the spawn phase of such a step, given the pipe list the spawn produced.\<close>

definition survivors :: "int \<Rightarrow> Game \<Rightarrow> Pipe list" where
  "survivors action g =
     filter (\<lambda>p. \<not> off_screen p) (map (tick (ramp_speed g) (moved_bird action g)) (pipes g))"

definition after_clear :: "int \<Rightarrow> Game \<Rightarrow> Pipe list \<Rightarrow> Game" where
  "after_clear action g ps2 =
     (ticked action g)
       \<lparr>pipes := ps2, score := score g + gained (ramp_speed g) (moved_bird action g) (pipes g)\<rparr>"

subsection \<open>Drivers\<close>

text \<open>A caller's loop of \<open>step\<close> calls: each element is the random draw and the action
  of one call. An exception ends the run.\<close>

fun steps :: "(int \<times> int) list \<Rightarrow> Game \<Rightarrow> error + Game" where
  "steps [] g = Inr g"
| "steps ((r, action) # cs) g =
     (case step r action g of Inl e \<Rightarrow> Inl e | Inr (g', out) \<Rightarrow> steps cs g')"

text \<open>Any sequence of calls on an engine: \<open>reset()\<close> with its random draw, or
  \<open>step(action)\<close> with its random draw and action.\<close>

datatype call = Reset int | Step int int

fun run :: "call list \<Rightarrow> Game \<Rightarrow> error + Game" where
  "run [] g = Inr g"
| "run (Reset r # cs) g =
     (case reset r g of Inl e \<Rightarrow> Inl e | Inr (g', s) \<Rightarrow> run cs g')"
| "run (Step r action # cs) g =
     (case step r action g of Inl e \<Rightarrow> Inl e | Inr (g', out) \<Rightarrow> run cs g')"

text \<open>The birds that a run of \<open>step(0)\<close> calls leaves behind, one per call, in
  order; an exception ends the run.\<close>

fun noop_birds :: "int list \<Rightarrow> Game \<Rightarrow> Bird list" where
  "noop_birds [] g = []"
| "noop_birds (r # rs) g =
     (case step r 0 g of Inl e \<Rightarrow> [] | Inr (g', out) \<Rightarrow> bird g' # noop_birds rs g')"

subsection \<open>Predicates on pipes and engine states\<close>

text \<open>The geometry \<open>Pipe.__init__\<close> aims at: the top height lies in
  \<open>[100, HEIGHT - gap - 100]\<close>, so both rectangles are at least 100 high.\<close>

definition sound_pipe :: "Pipe \<Rightarrow> bool" where
  "sound_pipe p = (100 \<le> p_top_height p \<and> p_top_height p \<le> HEIGHT - p_gap p - 100)"

definition sound_game :: "Game \<Rightarrow> bool" where
  "sound_game g = (pipe_gap g \<le> HEIGHT - 200 \<and>
                   (\<forall>p \<in> set (pipes g). p_gap p = pipe_gap g \<and> sound_pipe p))"




text \<open>Strict overlap of two integer rectangles of positive size.\<close>

definition rect_overlap :: "Rect \<Rightarrow> Rect \<Rightarrow> bool" where
  "rect_overlap A B =
     (r_x A < r_x B + r_w B \<and> r_x B < r_x A + r_w A \<and>
      r_y A < r_y B + r_h B \<and> r_y B < r_y A + r_h A)"

text \<open>The history of one pipe over the steps in which the pipe loop reaches its scoring
  test; each element is the speed and the bird of one such step. \<open>pipe_gains\<close> records
  whether the step adds the pipe's point to the score, \<open>pipe_behind\<close> whether the
  pipe's trailing edge is strictly left of the bird's x after the step's update.\<close>

fun pipe_gains :: "(rat \<times> Bird) list \<Rightarrow> Pipe \<Rightarrow> bool list" where
  "pipe_gains [] p = []"
| "pipe_gains ((cs, b) # ts) p = scores b (moved cs p) # pipe_gains ts (tick cs b p)"

fun pipe_behind :: "(rat \<times> Bird) list \<Rightarrow> Pipe \<Rightarrow> bool list" where
  "pipe_behind [] p = []"
| "pipe_behind ((cs, b) # ts) p =
     (p_x (moved cs p) + of_int (p_width (moved cs p)) < of_int (b_x b)) #
     pipe_behind ts (tick cs b p)"

text \<open>Keeps the first \<open>True\<close> of a list and clears the later ones.\<close>

fun first_only :: "bool list \<Rightarrow> bool list" where
  "first_only [] = []"
| "first_only (x # xs) = (if x then True # map (\<lambda>_. False) xs else False # first_only xs)"

subsection \<open>The specification's wording, for comparison\<close>

text \<open>The scan of the encoded state as the specification words it: the first pipe whose
  right edge is at or ahead of the bird's x.\<close>

fun next_pipe_spec :: "Bird \<Rightarrow> Pipe list \<Rightarrow> Pipe option" where
  "next_pipe_spec b [] = None"
| "next_pipe_spec b (p # ps) =
     (if p_x p + of_int (p_width p) \<ge> of_int (b_x b) then Some p else next_pipe_spec b ps)"

definition get_state_spec :: "Game \<Rightarrow> state_tuple" where
  "get_state_spec g =
     (case next_pipe_spec (bird g) (pipes g) of
        Some np \<Rightarrow> (b_y (bird g), b_velocity (bird g), p_x np - of_int (b_x (bird g)),
                    p_top_height np, p_top_height np + p_gap np)
      | None \<Rightarrow> (b_y (bird g), b_velocity (bird g), of_int WIDTH, HEIGHT div 2, HEIGHT))"

text \<open>The collision test as the specification words it, on exact coordinates: a box is
  (left, top, width, height); two boxes overlap when they overlap strictly on both axes,
  so boxes that only touch do not; the bird's box is the square of side \<open>size\<close> centred
  on \<open>(x, y)\<close>.\<close>

type_synonym box = "rat \<times> rat \<times> rat \<times> rat"

fun aabb_overlap :: "box \<Rightarrow> box \<Rightarrow> bool" where
  "aabb_overlap (l1, t1, w1, h1) (l2, t2, w2, h2) =
     (l1 < l2 + w2 \<and> l2 < l1 + w1 \<and> t1 < t2 + h2 \<and> t2 < t1 + h1)"

definition bird_box :: "Bird \<Rightarrow> box" where
  "bird_box b = (of_int (b_x b) - of_int (b_size b) / 2, b_y b - of_int (b_size b) / 2,
                 of_int (b_size b), of_int (b_size b))"

definition collides_spec :: "Pipe \<Rightarrow> Bird \<Rightarrow> bool" where
  "collides_spec p b =
     (aabb_overlap (bird_box b) (p_x p, 0, of_int (p_width p), of_int (p_top_height p)) \<or>
      aabb_overlap (bird_box b)
        (p_x p, of_int (p_top_height p + p_gap p), of_int (p_width p),
         of_int (HEIGHT - p_top_height p - p_gap p)))"

subsection \<open>Example states\<close>

text \<open>The engine as \<open>FlappyBirdGame()\<close> builds it with the default configuration, when
  the generator draws the top height 100; and the same engine with the flag set.\<close>

definition fresh_game :: Game where
  "fresh_game =
     \<lparr>bird = Bird_init,
      pipes = [\<lparr>p_x = 600, p_width = 70, p_gap = 200, p_top_height = 100, p_speed = 3,
                p_passed = False\<rparr>],
      score = 0, game_over = False, current_speed = 3, frames_elapsed = 0,
      pipe_distance = 300, pipe_gap = 200, speed_increase_rate = 0, base_speed = 3\<rparr>"

definition over_game :: Game where
  "over_game = fresh_game\<lparr>game_over := True\<rparr>"

text \<open>An engine without pipes whose bird is at height \<open>y0\<close>.\<close>

definition no_pipes_game :: "rat \<Rightarrow> Game" where
  "no_pipes_game y0 = fresh_game\<lparr>bird := Bird_init\<lparr>b_y := y0\<rparr>, pipes := []\<rparr>"

text \<open>A state in which the first pipe leaves the bird behind in the step in which the
  bird, jumping inside the first pipe's gap, strikes the top of the second pipe; and the
  state that step leaves behind.\<close>

definition crossing_game :: Game where
  "crossing_game =
     fresh_game\<lparr>bird := Bird_init\<lparr>b_y := 215\<rparr>,
       pipes := [\<lparr>p_x = 12, p_width = 70, p_gap = 200, p_top_height = 100, p_speed = 3,
                  p_passed = False\<rparr>,
                 \<lparr>p_x = 90, p_width = 70, p_gap = 200, p_top_height = 200, p_speed = 3,
                  p_passed = False\<rparr>,
                 \<lparr>p_x = 168, p_width = 70, p_gap = 200, p_top_height = 150, p_speed = 3,
                  p_passed = False\<rparr>],
       pipe_distance := 75\<rparr>"

definition crossing_after :: Game where
  "crossing_after =
     crossing_game\<lparr>bird := Bird_init\<lparr>b_y := 411 / 2, b_velocity := - (19 / 2)\<rparr>,
       pipes := [\<lparr>p_x = 9, p_width = 70, p_gap = 200, p_top_height = 100, p_speed = 3,
                  p_passed = True\<rparr>,
                 \<lparr>p_x = 87, p_width = 70, p_gap = 200, p_top_height = 200, p_speed = 3,
                  p_passed = False\<rparr>,
                 \<lparr>p_x = 168, p_width = 70, p_gap = 200, p_top_height = 150, p_speed = 3,
                  p_passed = False\<rparr>],
       score := 1, game_over := True, frames_elapsed := 1\<rparr>"

text \<open>The same pipes, with the bird gliding through the gaps while the first pipe
  leaves it behind.\<close>

definition passing_game :: Game where
  "passing_game = crossing_game\<lparr>bird := Bird_init\<lparr>b_y := 250\<rparr>\<rparr>"

text \<open>A pipe about to leave the bird behind.\<close>

definition near_pipe :: Pipe where
  "near_pipe = \<lparr>p_x = 15, p_width = 70, p_gap = 200, p_top_height = 100, p_speed = 3,
                p_passed = False\<rparr>"

text \<open>A state in which the right edge of the first pipe is exactly at the bird's x.\<close>

definition edge_game :: Game where
  "edge_game =
     fresh_game\<lparr>pipes := [\<lparr>p_x = 10, p_width = 70, p_gap = 200, p_top_height = 100,
                             p_speed = 3, p_passed = False\<rparr>,
                            \<lparr>p_x = 313, p_width = 70, p_gap = 200, p_top_height = 250,
                             p_speed = 3, p_passed = False\<rparr>]\<rparr>"

text \<open>A bird whose exact box reaches half a unit into the bottom rectangle of a pipe,
  and a bird whose box reaches a whole unit into it.\<close>

definition grazing_bird :: Bird where
  "grazing_bird = Bird_init\<lparr>b_y := 571 / 2\<rparr>"

definition grazed_pipe :: Pipe where
  "grazed_pipe = \<lparr>p_x = 60, p_width = 70, p_gap = 200, p_top_height = 100, p_speed = 3,
                  p_passed = False\<rparr>"

definition struck_bird :: Bird where
  "struck_bird = Bird_init\<lparr>b_y := 286\<rparr>"






section \<open>Properties\<close>

lemmas model_defs = step_def Let_def Bird_init_def Bird_update_def jump_def
  collides_with_def get_rect_def pygame_Rect_def trunc_def colliderect_def Pipe_update_def
  off_screen_def spawn_def get_state_def HEIGHT_def WIDTH_def FPS_def Pipe_init_def
  randint_def reset_def

subsection \<open>The pipe loop and the two ways a step ends\<close>

lemma pipes_loop_closed:
  "pipes_loop cs b ps sc =
     (dropWhile (clear cs b) ps \<noteq> [],
      map (tick cs b) (takeWhile (clear cs b) ps) @
        (case dropWhile (clear cs b) ps of [] \<Rightarrow> [] | p # post \<Rightarrow> moved cs p # post),
      sc + gained cs b (takeWhile (clear cs b) ps))"
proof (induction ps arbitrary: sc)
  case Nil
  show ?case by (simp add: gained_def)
next
  case (Cons p ps)
  show ?case
  proof (cases "clear cs b p")
    case True
    then have nc: "\<not> collides_with (Pipe_update (p\<lparr>p_speed := cs\<rparr>)) b"
      by (simp add: clear_def moved_def)
    show ?thesis
      using True nc Cons.IH
      by (simp add: Let_def gained_def tick_def scores_def moved_def)
  next
    case False
    then have c: "collides_with (Pipe_update (p\<lparr>p_speed := cs\<rparr>)) b"
      by (simp add: clear_def moved_def)
    show ?thesis using False c by (simp add: Let_def gained_def moved_def)
  qed
qed

lemma hits_dropWhile:
  "hits action g \<longleftrightarrow> dropWhile (clear (ramp_speed g) (moved_bird action g)) (pipes g) \<noteq> []"
  by (auto simp: hits_def dropWhile_eq_Nil_conv)

lemma step_alt:
  "step r action g =
     (case pipes_loop (ramp_speed g) (moved_bird action g) (pipes g) (score g) of
        (hit, ps, sc) \<Rightarrow>
          if hit
          then Inr ((ticked action g)\<lparr>pipes := ps, score := sc, game_over := True\<rparr>,
                    get_state ((ticked action g)\<lparr>pipes := ps, score := sc, game_over := True\<rparr>),
                    -1000, True)
          else
            (case spawn r (ramp_speed g) (pipe_distance g) (pipe_gap g)
                    (filter (\<lambda>p. \<not> off_screen p) ps) of
               Inl e \<Rightarrow> Inl e
             | Inr ps2 \<Rightarrow>
                 if out_of_bounds (moved_bird action g)
                 then Inr ((ticked action g)\<lparr>pipes := ps2, score := sc, game_over := True\<rparr>,
                           get_state ((ticked action g)\<lparr>pipes := ps2, score := sc, game_over := True\<rparr>),
                           -1000, True)
                 else Inr ((ticked action g)\<lparr>pipes := ps2, score := sc\<rparr>,
                           get_state ((ticked action g)\<lparr>pipes := ps2, score := sc\<rparr>), 1, False)))"
  unfolding step_def Let_def ramp_speed_def moved_bird_def ticked_def out_of_bounds_def
  by (rule refl)

lemma step_hit:
  assumes "hits action g"
  shows "step r action g = Inr (after_hit action g, get_state (after_hit action g), -1000, True)"
  using assms
  unfolding hits_dropWhile step_alt pipes_loop_closed after_hit_def Let_def
  by simp

lemma step_clear:
  assumes "\<not> hits action g"
  shows "step r action g =
     (case spawn r (ramp_speed g) (pipe_distance g) (pipe_gap g) (survivors action g) of
        Inl e \<Rightarrow> Inl e
      | Inr ps2 \<Rightarrow>
          if out_of_bounds (moved_bird action g)
          then Inr ((after_clear action g ps2)\<lparr>game_over := True\<rparr>,
                    get_state ((after_clear action g ps2)\<lparr>game_over := True\<rparr>), -1000, True)
          else Inr (after_clear action g ps2, get_state (after_clear action g ps2), 1, False))"
proof -
  have tw: "takeWhile (clear (ramp_speed g) (moved_bird action g)) (pipes g) = pipes g"
    using assms by (auto simp: hits_def takeWhile_eq_all_conv)
  have dw: "dropWhile (clear (ramp_speed g) (moved_bird action g)) (pipes g) = []"
    using assms by (simp add: hits_dropWhile)
  show ?thesis
    unfolding step_alt pipes_loop_closed after_clear_def survivors_def
    by (simp add: tw dw split: sum.splits)
qed

subsection \<open>When building a pipe succeeds\<close>

lemma Pipe_init_Inr:
  "pg \<le> HEIGHT - 200 \<Longrightarrow>
   Pipe_init x0 pg r = Inr \<lparr>p_x = of_int x0, p_width = 70, p_gap = pg,
       p_top_height = 100 + r mod (HEIGHT - pg - 199), p_speed = 3, p_passed = False\<rparr>"
  by (simp add: Pipe_init_def randint_def)

lemma Pipe_init_Inl: "HEIGHT - 200 < pg \<Longrightarrow> Pipe_init x0 pg r = Inl ValueError"
  by (simp add: Pipe_init_def randint_def)

lemma spawn_total: "pg \<le> HEIGHT - 200 \<Longrightarrow> \<exists>ps'. spawn r cs pd pg ps = Inr ps'"
  by (simp add: spawn_def Pipe_init_Inr)

lemma step_total: "pipe_gap g \<le> HEIGHT - 200 \<Longrightarrow> \<exists>res. step r action g = Inr res"
proof (cases "hits action g")
  case True
  then show ?thesis by (simp only: step_hit) blast
next
  case False
  assume "pipe_gap g \<le> HEIGHT - 200"
  then obtain ps' where
    "spawn r (ramp_speed g) (pipe_distance g) (pipe_gap g) (survivors action g) = Inr ps'"
    using spawn_total by blast
  then have "step r action g =
      (if out_of_bounds (moved_bird action g)
       then Inr ((after_clear action g ps')\<lparr>game_over := True\<rparr>,
                 get_state ((after_clear action g ps')\<lparr>game_over := True\<rparr>), -1000, True)
       else Inr (after_clear action g ps', get_state (after_clear action g ps'), 1, False))"
    using False by (simp add: step_clear)
  then show ?thesis by (metis (full_types))
qed

lemma step_bird:
  assumes "step r action g = Inr (g', out)"
  shows "bird g' = moved_bird action g"
proof (cases "hits action g")
  case True
  with assms show ?thesis by (auto simp: step_hit after_hit_def ticked_def Let_def)
next
  case False
  with assms show ?thesis
    by (auto simp: step_clear after_clear_def ticked_def split: sum.splits if_splits)
qed

subsection \<open>The terminal state (C4) and the action test (C10)\<close>

lemma step_game_over:
  assumes "step r action g = Inr (g', out)" and "game_over g"
  shows "game_over g'"
proof (cases "hits action g")
  case True
  with assms show ?thesis by (auto simp: step_hit after_hit_def Let_def)
next
  case False
  with assms show ?thesis
    by (auto simp: step_clear after_clear_def ticked_def split: sum.splits if_splits)
qed

lemma steps_game_over: "game_over g \<Longrightarrow> steps cs g = Inr g' \<Longrightarrow> game_over g'"
proof (induction cs arbitrary: g)
  case Nil
  then show ?case by simp
next
  case (Cons c cs)
  obtain r a where c: "c = (r, a)" by (cases c)
  from Cons.prems(2) obtain g1 out
    where s: "step r a g = Inr (g1, out)" and t: "steps cs g1 = Inr g'"
    by (auto simp: c split: sum.splits)
  from step_game_over[OF s Cons.prems(1)] have "game_over g1" .
  from Cons.IH[OF this t] show ?case .
qed

lemma reset_clears: "reset r g = Inr (g', s) \<Longrightarrow> \<not> game_over g'"
  by (auto simp: reset_def Let_def split: sum.splits)

text \<open>
  Claim C4. Once \<open>game_over\<close> is set, no sequence of \<open>step\<close> calls clears it: after any
  run of steps that starts in a state with the flag set, the flag is still set. A
  \<open>reset\<close> that returns leaves the flag cleared.
\<close>

theorem C4_over_is_terminal:
  "(game_over g \<and> steps cs g = Inr g' \<longrightarrow> game_over g') \<and>
   (reset r g = Inr (g'', s) \<longrightarrow> \<not> game_over g'')"
  using steps_game_over reset_clears by blast

theorem C4_over_is_terminal_witness:
  "game_over over_game \<and>
   steps [(0, 0), (0, 1)] over_game =
     Inr (over_game\<lparr>bird := Bird_init\<lparr>b_y := 291, b_velocity := -19/2\<rparr>,
            pipes := [\<lparr>p_x = 594, p_width = 70, p_gap = 200, p_top_height = 100,
                       p_speed = 3, p_passed = False\<rparr>],
            frames_elapsed := 2\<rparr>) \<and>
   game_over (over_game\<lparr>bird := Bird_init\<lparr>b_y := 291, b_velocity := -19/2\<rparr>,
            pipes := [\<lparr>p_x = 594, p_width = 70, p_gap = 200, p_top_height = 100,
                       p_speed = 3, p_passed = False\<rparr>],
            frames_elapsed := 2\<rparr>) \<and>
   reset 0 over_game = Inr (fresh_game, (300, 0, 520, 100, 300)) \<and>
   \<not> game_over fresh_game"
proof -
  have run: "steps [(0, 0), (0, 1)] over_game =
     Inr (over_game\<lparr>bird := Bird_init\<lparr>b_y := 291, b_velocity := -19/2\<rparr>,
            pipes := [\<lparr>p_x = 594, p_width = 70, p_gap = 200, p_top_height = 100,
                       p_speed = 3, p_passed = False\<rparr>],
            frames_elapsed := 2\<rparr>)"
    by (simp add: over_game_def fresh_game_def model_defs)
  have rs: "reset 0 over_game = Inr (fresh_game, (300, 0, 520, 100, 300))"
    by (simp add: over_game_def fresh_game_def model_defs)
  have flag: "game_over over_game"
    by (simp add: over_game_def)
  from C4_over_is_terminal[of over_game "[(0, 0), (0, 1)]" _ 0 fresh_game "(300, 0, 520, 100, 300)"]
    run rs flag
  show ?thesis by simp
qed

text \<open>
  Claim C10. An action other than 1 is treated like 0: \<open>step\<close> gives the same result
  for both. The bird a returning step leaves behind is the old bird after \<open>update\<close>,
  with \<open>jump\<close> applied before exactly when the action is 1. No action value makes
  \<open>step\<close> raise: with a pipe gap that the constructor accepts, \<open>step\<close> returns for
  every action.
\<close>

theorem C10_only_one_jumps:
  "(action \<noteq> 1 \<longrightarrow> step r action g = step r 0 g) \<and>
   (\<forall>g' out. step r action g = Inr (g', out) \<longrightarrow>
      bird g' = Bird_update (if action = 1 then jump (bird g) else bird g)) \<and>
   (pipe_gap g \<le> HEIGHT - 200 \<longrightarrow> (\<exists>res. step r action g = Inr res))"
proof (intro conjI impI allI)
  assume "action \<noteq> 1"
  then show "step r action g = step r 0 g" by (simp add: step_def)
next
  fix g' out
  assume "step r action g = Inr (g', out)"
  from step_bird[OF this]
  show "bird g' = Bird_update (if action = 1 then jump (bird g) else bird g)"
    by (simp add: moved_bird_def)
next
  assume "pipe_gap g \<le> HEIGHT - 200"
  then show "\<exists>res. step r action g = Inr res" by (rule step_total)
qed

theorem C10_only_one_jumps_witness:
  "(2::int) \<noteq> 1 \<and> step 0 2 fresh_game = step 0 0 fresh_game \<and>
   pipe_gap fresh_game \<le> HEIGHT - 200 \<and>
   (\<exists>g' out. step 0 2 fresh_game = Inr (g', out) \<and> bird g' = Bird_update (bird fresh_game)) \<and>
   (\<exists>g' out. step 0 (-7) fresh_game = Inr (g', out) \<and> bird g' = Bird_update (bird fresh_game)) \<and>
   (\<exists>g' out. step 0 1 fresh_game = Inr (g', out) \<and>
      bird g' = Bird_update (jump (bird fresh_game)))"
proof -
  have gap: "pipe_gap fresh_game \<le> HEIGHT - 200"
    by (simp add: fresh_game_def HEIGHT_def)
  have a: "\<exists>g' out. step 0 a fresh_game = Inr (g', out) \<and>
             bird g' = Bird_update (if a = 1 then jump (bird fresh_game) else bird fresh_game)"
    for a
    using C10_only_one_jumps[of a 0 fresh_game] gap by fastforce
  from a[of 2] a[of "-7"] a[of 1] C10_only_one_jumps[of 2 0 fresh_game] gap
  show ?thesis by simp
qed

subsection \<open>Leaving the screen (C7)\<close>

lemma step_pipe_gap:
  assumes "step r action g = Inr (g', out)"
  shows "pipe_gap g' = pipe_gap g"
proof (cases "hits action g")
  case True
  with assms show ?thesis by (auto simp: step_hit after_hit_def ticked_def Let_def)
next
  case False
  with assms show ?thesis
    by (auto simp: step_clear after_clear_def ticked_def split: sum.splits if_splits)
qed

lemma step_clear_out:
  assumes "\<not> hits action g" and "pipe_gap g \<le> HEIGHT - 200"
    and "out_of_bounds (moved_bird action g)"
  shows "\<exists>g'. step r action g = Inr (g', get_state g', -1000, True) \<and> game_over g'"
proof -
  obtain ps' where
    "spawn r (ramp_speed g) (pipe_distance g) (pipe_gap g) (survivors action g) = Inr ps'"
    using spawn_total[OF assms(2)] by blast
  then have "step r action g =
      Inr ((after_clear action g ps')\<lparr>game_over := True\<rparr>,
           get_state ((after_clear action g ps')\<lparr>game_over := True\<rparr>), -1000, True)"
    using assms(1,3) by (simp add: step_clear)
  moreover have "game_over ((after_clear action g ps')\<lparr>game_over := True\<rparr>)" by simp
  ultimately show ?thesis by blast
qed

lemma step_clear_in:
  assumes "\<not> hits action g" and "pipe_gap g \<le> HEIGHT - 200"
    and "\<not> out_of_bounds (moved_bird action g)"
  shows "\<exists>g'. step r action g = Inr (g', get_state g', 1, False) \<and> game_over g' = game_over g"
proof -
  obtain ps' where
    "spawn r (ramp_speed g) (pipe_distance g) (pipe_gap g) (survivors action g) = Inr ps'"
    using spawn_total[OF assms(2)] by blast
  then have "step r action g =
      Inr (after_clear action g ps', get_state (after_clear action g ps'), 1, False)"
    using assms(1,3) by (simp add: step_clear)
  moreover have "game_over (after_clear action g ps') = game_over g"
    by (simp add: after_clear_def ticked_def)
  ultimately show ?thesis by blast
qed

text \<open>
  Claim C7. Take a step in which no pipe collides and whose engine has a pipe gap that the
  constructor accepts. If the bird's \<open>y\<close> after its update is above \<open>HEIGHT\<close> or
  below 0, \<open>step\<close> returns \<open>(get_state, -1000, True)\<close> and sets \<open>game_over\<close>. The
  inequalities are strict: with \<open>y\<close> in \<open>[0, HEIGHT]\<close>, the ends included, the step
  returns \<open>(get_state, 1, False)\<close> and leaves the flag as it was. Nothing is assumed of the
  pipe list, which may be empty.
\<close>

theorem C7_out_of_bounds_ends:
  assumes "\<not> hits action g" and "pipe_gap g \<le> HEIGHT - 200"
  shows "(b_y (moved_bird action g) > of_int HEIGHT \<or> b_y (moved_bird action g) < 0 \<longrightarrow>
            (\<exists>g'. step r action g = Inr (g', get_state g', -1000, True) \<and> game_over g')) \<and>
         (0 \<le> b_y (moved_bird action g) \<and> b_y (moved_bird action g) \<le> of_int HEIGHT \<longrightarrow>
            (\<exists>g'. step r action g = Inr (g', get_state g', 1, False) \<and>
                  game_over g' = game_over g))"
proof (intro conjI impI)
  assume "b_y (moved_bird action g) > of_int HEIGHT \<or> b_y (moved_bird action g) < 0"
  then have "out_of_bounds (moved_bird action g)" by (simp add: out_of_bounds_def)
  from step_clear_out[OF assms this]
  show "\<exists>g'. step r action g = Inr (g', get_state g', -1000, True) \<and> game_over g'" .
next
  assume "0 \<le> b_y (moved_bird action g) \<and> b_y (moved_bird action g) \<le> of_int HEIGHT"
  then have "\<not> out_of_bounds (moved_bird action g)" by (auto simp: out_of_bounds_def)
  from step_clear_in[OF assms this]
  show "\<exists>g'. step r action g = Inr (g', get_state g', 1, False) \<and> game_over g' = game_over g" .
qed

lemma no_pipes_clear: "\<not> hits a (no_pipes_game y0)"
  by (simp add: hits_def no_pipes_game_def)

lemma no_pipes_gap: "pipe_gap (no_pipes_game y0) \<le> HEIGHT - 200"
  by (simp add: no_pipes_game_def fresh_game_def HEIGHT_def)

text \<open>With no pipes at all: the bird ends at 600.5 and at -0.5 (terminal), and at exactly
  600 and exactly 0 (in bounds).\<close>

theorem C7_out_of_bounds_ends_witness:
  "\<not> hits 0 (no_pipes_game 600) \<and> pipe_gap (no_pipes_game 600) \<le> HEIGHT - 200 \<and>
   b_y (moved_bird 0 (no_pipes_game 600)) = 1201 / 2 \<and>
   (\<exists>g'. step 0 0 (no_pipes_game 600) = Inr (g', get_state g', -1000, True) \<and> game_over g') \<and>
   b_y (moved_bird 1 (no_pipes_game 9)) = - (1 / 2) \<and>
   (\<exists>g'. step 0 1 (no_pipes_game 9) = Inr (g', get_state g', -1000, True) \<and> game_over g') \<and>
   b_y (moved_bird 0 (no_pipes_game (1199 / 2))) = 600 \<and>
   (\<exists>g'. step 0 0 (no_pipes_game (1199 / 2)) = Inr (g', get_state g', 1, False) \<and>
         \<not> game_over g') \<and>
   b_y (moved_bird 1 (no_pipes_game (19 / 2))) = 0 \<and>
   (\<exists>g'. step 0 1 (no_pipes_game (19 / 2)) = Inr (g', get_state g', 1, False) \<and>
         \<not> game_over g')"
proof -
  have y1: "b_y (moved_bird 0 (no_pipes_game 600)) = 1201 / 2"
    and y2: "b_y (moved_bird 1 (no_pipes_game 9)) = - (1 / 2)"
    and y3: "b_y (moved_bird 0 (no_pipes_game (1199 / 2))) = 600"
    and y4: "b_y (moved_bird 1 (no_pipes_game (19 / 2))) = 0"
    by (simp_all add: moved_bird_def no_pipes_game_def fresh_game_def model_defs)
  have go: "\<not> game_over (no_pipes_game y0)" for y0
    by (simp add: no_pipes_game_def fresh_game_def)
  from C7_out_of_bounds_ends[OF no_pipes_clear no_pipes_gap, of 0 600 0]
       C7_out_of_bounds_ends[OF no_pipes_clear no_pipes_gap, of 1 9 0]
       C7_out_of_bounds_ends[OF no_pipes_clear no_pipes_gap, of 0 "1199 / 2" 0]
       C7_out_of_bounds_ends[OF no_pipes_clear no_pipes_gap, of 1 "19 / 2" 0]
       y1 y2 y3 y4 no_pipes_clear[of 0 600] no_pipes_gap[of 600]
  show ?thesis by (simp add: HEIGHT_def go)
qed

subsection \<open>Falling under gravity (C8)\<close>

lemma noop_step_bird:
  assumes "step r 0 g = Inr (g', out)"
    and "0 \<le> b_velocity (bird g)" and "0 < b_gravity (bird g)"
  shows "b_y (bird g) < b_y (bird g') \<and> 0 < b_velocity (bird g') \<and>
         b_gravity (bird g') = b_gravity (bird g)"
  using assms(2,3) step_bird[OF assms(1)]
  by (simp add: moved_bird_def Bird_update_def Let_def)

lemma noop_birds_above:
  "0 \<le> b_velocity (bird g) \<Longrightarrow> 0 < b_gravity (bird g) \<Longrightarrow>
   \<forall>b \<in> set (noop_birds rs g). b_y (bird g) < b_y b \<and> 0 < b_velocity b"
proof (induction rs arbitrary: g)
  case Nil
  show ?case by simp
next
  case (Cons r rs)
  show ?case
  proof (cases "step r 0 g")
    case (Inl e)
    then show ?thesis by simp
  next
    case (Inr res)
    obtain g' out where res: "res = (g', out)" by (cases res)
    from Inr res have s: "step r 0 g = Inr (g', out)" by simp
    from noop_step_bird[OF s Cons.prems]
    have up: "b_y (bird g) < b_y (bird g')" and v: "0 < b_velocity (bird g')"
      and gr: "0 < b_gravity (bird g')" using Cons.prems by simp_all
    from Cons.IH[of g'] v gr
    have "\<forall>b \<in> set (noop_birds rs g'). b_y (bird g') < b_y b \<and> 0 < b_velocity b" by simp
    with up v show ?thesis by (auto simp: s)
  qed
qed

lemma noop_birds_rising:
  "0 \<le> b_velocity (bird g) \<Longrightarrow> 0 < b_gravity (bird g) \<Longrightarrow>
   sorted_wrt (<) (map b_y (bird g # noop_birds rs g))"
proof (induction rs arbitrary: g)
  case Nil
  show ?case by simp
next
  case (Cons r rs)
  show ?case
  proof (cases "step r 0 g")
    case (Inl e)
    then show ?thesis by simp
  next
    case (Inr res)
    obtain g' out where res: "res = (g', out)" by (cases res)
    from Inr res have s: "step r 0 g = Inr (g', out)" by simp
    from noop_step_bird[OF s Cons.prems]
    have v: "0 \<le> b_velocity (bird g')" and gr: "0 < b_gravity (bird g')"
      using Cons.prems by simp_all
    from Cons.IH[OF v gr] have "sorted_wrt (<) (map b_y (bird g' # noop_birds rs g'))" .
    moreover from noop_birds_above[OF Cons.prems, of "r # rs"]
    have "\<forall>b \<in> set (bird g' # noop_birds rs g'). b_y (bird g) < b_y b" by (simp add: s)
    ultimately show ?thesis by (simp add: s)
  qed
qed

lemma noop_birds_length:
  "pipe_gap g \<le> HEIGHT - 200 \<Longrightarrow> length (noop_birds rs g) = length rs"
proof (induction rs arbitrary: g)
  case Nil
  show ?case by simp
next
  case (Cons r rs)
  from step_total[OF Cons.prems, of r 0] obtain g' out where s: "step r 0 g = Inr (g', out)"
    by fastforce
  from step_pipe_gap[OF s] Cons.prems have "pipe_gap g' \<le> HEIGHT - 200" by simp
  from Cons.IH[OF this] show ?case by (simp add: s)
qed

text \<open>
  Claim C8. Start from any state whose bird has velocity 0 (as after \<open>reset\<close>) and
  positive gravity, and call \<open>step(0)\<close> any number of times. The bird's \<open>y\<close> increases
  strictly from each call to the next, starting with the first, and the velocity is
  strictly positive after every call. This holds for every call of the run, so in
  particular up to the call that reports \<open>done\<close>. With a pipe gap that the constructor
  accepts no call raises, so the run has one bird per call.
\<close>

theorem C8_no_op_falls:
  assumes "b_velocity (bird g) = 0" and "0 < b_gravity (bird g)"
  shows "sorted_wrt (<) (map b_y (bird g # noop_birds rs g)) \<and>
         (\<forall>b \<in> set (noop_birds rs g). 0 < b_velocity b) \<and>
         (pipe_gap g \<le> HEIGHT - 200 \<longrightarrow> length (noop_birds rs g) = length rs)"
proof -
  from assms have v: "0 \<le> b_velocity (bird g)" by simp
  from noop_birds_rising[OF v assms(2)] noop_birds_above[OF v assms(2)] noop_birds_length
  show ?thesis by blast
qed

theorem C8_no_op_falls_witness:
  "b_velocity (bird fresh_game) = 0 \<and> 0 < b_gravity (bird fresh_game) \<and>
   b_y (bird fresh_game) = 300 \<and>
   map b_y (noop_birds [0, 0, 0] fresh_game) = [601 / 2, 603 / 2, 303] \<and>
   map b_velocity (noop_birds [0, 0, 0] fresh_game) = [1 / 2, 1, 3 / 2] \<and>
   sorted_wrt (<) (map b_y (bird fresh_game # noop_birds [0, 0, 0] fresh_game))"
proof -
  have v: "b_velocity (bird fresh_game) = 0" and gr: "0 < b_gravity (bird fresh_game)"
    and y: "b_y (bird fresh_game) = 300"
    by (simp_all add: fresh_game_def Bird_init_def HEIGHT_def)
  have ys: "map b_y (noop_birds [0, 0, 0] fresh_game) = [601 / 2, 603 / 2, 303]"
    and vs: "map b_velocity (noop_birds [0, 0, 0] fresh_game) = [1 / 2, 1, 3 / 2]"
    by (simp_all add: fresh_game_def model_defs)
  from C8_no_op_falls[OF v gr, of "[0, 0, 0]"] v gr y ys vs
  show ?thesis by simp
qed

subsection \<open>A step that ends in a collision (C1)\<close>

text \<open>
  Claim C1 says that a step ending in a collision leaves the score unchanged. In
  \<open>crossing_game\<close> the second pipe collides after its update, and the step that reports
  the collision has already scored the first pipe: the score goes from 0 to 1.
\<close>

theorem C1_counterexample:
  "collides_with (moved 3 (pipes crossing_game ! 1)) (moved_bird 1 crossing_game) \<and>
   step 0 1 crossing_game = Inr (crossing_after, (411 / 2, - (19 / 2), 7, 200, 400), -1000, True) \<and>
   score crossing_game = 0 \<and> score crossing_after = 1"
  by code_simp

lemma hits_split:
  assumes "hits action g"
  shows "\<exists>pre p post. pipes g = pre @ p # post \<and>
           (\<forall>q \<in> set pre. clear (ramp_speed g) (moved_bird action g) q) \<and>
           \<not> clear (ramp_speed g) (moved_bird action g) p \<and>
           takeWhile (clear (ramp_speed g) (moved_bird action g)) (pipes g) = pre \<and>
           dropWhile (clear (ramp_speed g) (moved_bird action g)) (pipes g) = p # post"
proof -
  let ?P = "clear (ramp_speed g) (moved_bird action g)"
  from assms have ne: "dropWhile ?P (pipes g) \<noteq> []" by (simp add: hits_dropWhile)
  then obtain p post where d: "dropWhile ?P (pipes g) = p # post"
    by (cases "dropWhile ?P (pipes g)") auto
  have "pipes g = takeWhile ?P (pipes g) @ p # post"
    using takeWhile_dropWhile_id[of ?P "pipes g"] d by simp
  moreover have "\<forall>q \<in> set (takeWhile ?P (pipes g)). ?P q"
    by (auto dest: set_takeWhileD)
  moreover have "\<not> ?P p"
    using d hd_dropWhile[OF ne] by simp
  ultimately show ?thesis using d by blast
qed

text \<open>
  Claim C1, amended. When some pipe collides with the bird after its own update, the pipe
  list splits at the first such pipe, in list order. \<open>step\<close> returns
  \<open>(get_state, -1000, True)\<close> with \<open>game_over\<close> set. The colliding pipe is moved and
  not scored; the pipes behind it are neither moved nor scored; the pipes before it have
  been moved and scored, and the score grows by the number of them that the loop scored.
\<close>

theorem C1_collision_ends_step:
  assumes "hits action g"
  shows "\<exists>pre p post g'.
           pipes g = pre @ p # post \<and>
           (\<forall>q \<in> set pre. \<not> collides_with (moved (ramp_speed g) q) (moved_bird action g)) \<and>
           collides_with (moved (ramp_speed g) p) (moved_bird action g) \<and>
           step r action g = Inr (g', get_state g', -1000, True) \<and>
           game_over g' \<and>
           pipes g' = map (tick (ramp_speed g) (moved_bird action g)) pre @
                      moved (ramp_speed g) p # post \<and>
           score g' = score g + gained (ramp_speed g) (moved_bird action g) pre"
proof -
  from hits_split[OF assms] obtain pre p post where
    sp: "pipes g = pre @ p # post"
    and pre: "\<forall>q \<in> set pre. clear (ramp_speed g) (moved_bird action g) q"
    and p: "\<not> clear (ramp_speed g) (moved_bird action g) p"
    and tw: "takeWhile (clear (ramp_speed g) (moved_bird action g)) (pipes g) = pre"
    and dw: "dropWhile (clear (ramp_speed g) (moved_bird action g)) (pipes g) = p # post"
    by blast
  have "game_over (after_hit action g)"
    by (simp add: after_hit_def Let_def)
  moreover have "pipes (after_hit action g) =
      map (tick (ramp_speed g) (moved_bird action g)) pre @ moved (ramp_speed g) p # post"
    by (simp add: after_hit_def Let_def tw dw)
  moreover have "score (after_hit action g) =
      score g + gained (ramp_speed g) (moved_bird action g) pre"
    by (simp add: after_hit_def Let_def tw)
  ultimately show ?thesis
    using sp pre p step_hit[OF assms, of r] unfolding clear_def by blast
qed

theorem C1_collision_ends_step_witness:
  "hits 1 crossing_game \<and>
   (\<exists>pre p post g'.
      pipes crossing_game = pre @ p # post \<and>
      collides_with (moved (ramp_speed crossing_game) p) (moved_bird 1 crossing_game) \<and>
      step 0 1 crossing_game = Inr (g', get_state g', -1000, True) \<and>
      game_over g' \<and>
      pipes g' = map (tick (ramp_speed crossing_game) (moved_bird 1 crossing_game)) pre @
                 moved (ramp_speed crossing_game) p # post \<and>
      score g' = score crossing_game +
                 gained (ramp_speed crossing_game) (moved_bird 1 crossing_game) pre)"
proof -
  have h: "hits 1 crossing_game"
    by code_simp
  from C1_collision_ends_step[OF h, of 0] h show ?thesis by blast
qed

subsection \<open>The encoded state (C2)\<close>

text \<open>
  Claim C2 takes as next pipe the first one whose right edge is at or ahead of the bird's
  x. In \<open>edge_game\<close> the right edge of the first pipe is exactly at the bird's x:
  \<open>get_state\<close> skips that pipe and reports the second one, where the claim's wording
  gives the first.
\<close>

theorem C2_counterexample:
  "get_state edge_game = (300, 0, 233, 250, 450) \<and>
   get_state_spec edge_game = (300, 0, -70, 100, 300)"
  by (simp add: get_state_def get_state_spec_def edge_game_def fresh_game_def Bird_init_def
      HEIGHT_def WIDTH_def)

lemma next_pipe_None:
  "next_pipe b ps = None \<longleftrightarrow> (\<forall>q \<in> set ps. \<not> of_int (b_x b) < p_x q + of_int (p_width q))"
  by (induction ps) auto

lemma next_pipe_Some:
  "next_pipe b ps = Some np \<longleftrightarrow>
     (\<exists>pre post. ps = pre @ np # post \<and>
        (\<forall>q \<in> set pre. \<not> of_int (b_x b) < p_x q + of_int (p_width q)) \<and>
        of_int (b_x b) < p_x np + of_int (p_width np))"
proof (induction ps)
  case Nil
  show ?case by simp
next
  case (Cons p ps)
  show ?case
  proof (cases "of_int (b_x b) < p_x p + of_int (p_width p)")
    case True
    have "(\<exists>pre post. p # ps = pre @ np # post \<and>
        (\<forall>q \<in> set pre. \<not> of_int (b_x b) < p_x q + of_int (p_width q)) \<and>
        of_int (b_x b) < p_x np + of_int (p_width np)) \<longleftrightarrow> p = np"
    proof
      assume "\<exists>pre post. p # ps = pre @ np # post \<and>
        (\<forall>q \<in> set pre. \<not> of_int (b_x b) < p_x q + of_int (p_width q)) \<and>
        of_int (b_x b) < p_x np + of_int (p_width np)"
      then obtain pre post where e: "p # ps = pre @ np # post"
        and a: "\<forall>q \<in> set pre. \<not> of_int (b_x b) < p_x q + of_int (p_width q)" by blast
      show "p = np"
      proof (cases pre)
        case Nil
        with e show ?thesis by simp
      next
        case (Cons q qs)
        with e have "q = p" by simp
        with a Cons True show ?thesis by simp
      qed
    next
      assume "p = np"
      with True have "p # ps = [] @ np # ps \<and>
        (\<forall>q \<in> set []. \<not> of_int (b_x b) < p_x q + of_int (p_width q)) \<and>
        of_int (b_x b) < p_x np + of_int (p_width np)" by simp
      then show "\<exists>pre post. p # ps = pre @ np # post \<and>
        (\<forall>q \<in> set pre. \<not> of_int (b_x b) < p_x q + of_int (p_width q)) \<and>
        of_int (b_x b) < p_x np + of_int (p_width np)" by blast
    qed
    with True show ?thesis by simp
  next
    case False
    have "(\<exists>pre post. p # ps = pre @ np # post \<and>
        (\<forall>q \<in> set pre. \<not> of_int (b_x b) < p_x q + of_int (p_width q)) \<and>
        of_int (b_x b) < p_x np + of_int (p_width np)) \<longleftrightarrow>
       (\<exists>pre post. ps = pre @ np # post \<and>
        (\<forall>q \<in> set pre. \<not> of_int (b_x b) < p_x q + of_int (p_width q)) \<and>
        of_int (b_x b) < p_x np + of_int (p_width np))" (is "?L \<longleftrightarrow> ?R")
    proof
      assume ?L
      then obtain pre post where e: "p # ps = pre @ np # post"
        and a: "\<forall>q \<in> set pre. \<not> of_int (b_x b) < p_x q + of_int (p_width q)"
        and n: "of_int (b_x b) < p_x np + of_int (p_width np)" by blast
      show ?R
      proof (cases pre)
        case Nil
        with e n False show ?thesis by simp
      next
        case (Cons q qs)
        with e a n have "ps = qs @ np # post \<and>
          (\<forall>q \<in> set qs. \<not> of_int (b_x b) < p_x q + of_int (p_width q)) \<and>
          of_int (b_x b) < p_x np + of_int (p_width np)" by simp
        then show ?thesis by blast
      qed
    next
      assume ?R
      then obtain pre post where "ps = pre @ np # post"
        and "\<forall>q \<in> set pre. \<not> of_int (b_x b) < p_x q + of_int (p_width q)"
        and "of_int (b_x b) < p_x np + of_int (p_width np)" by blast
      with False have "p # ps = (p # pre) @ np # post \<and>
        (\<forall>q \<in> set (p # pre). \<not> of_int (b_x b) < p_x q + of_int (p_width q)) \<and>
        of_int (b_x b) < p_x np + of_int (p_width np)" by simp
      then show ?L by blast
    qed
    with False Cons.IH show ?thesis by simp
  qed
qed

text \<open>
  Claim C2, amended. \<open>get_state\<close> returns the bird's \<open>y\<close> and velocity, followed by the
  data of the next pipe, which is the first pipe in list order whose right edge
  \<open>x + width\<close> is strictly ahead of the bird's x: the distance \<open>pipe.x - bird.x\<close>, the
  pipe's top height, and top height plus gap. When no pipe has its right edge strictly
  ahead, the last three components are \<open>WIDTH\<close>, \<open>HEIGHT // 2\<close> and \<open>HEIGHT\<close>.
\<close>

theorem C2_encoded_state:
  "(\<forall>pre np post.
      pipes g = pre @ np # post \<and>
      (\<forall>q \<in> set pre. p_x q + of_int (p_width q) \<le> of_int (b_x (bird g))) \<and>
      of_int (b_x (bird g)) < p_x np + of_int (p_width np) \<longrightarrow>
      get_state g = (b_y (bird g), b_velocity (bird g), p_x np - of_int (b_x (bird g)),
                     p_top_height np, p_top_height np + p_gap np)) \<and>
   ((\<forall>q \<in> set (pipes g). p_x q + of_int (p_width q) \<le> of_int (b_x (bird g))) \<longrightarrow>
      get_state g = (b_y (bird g), b_velocity (bird g), of_int WIDTH, HEIGHT div 2, HEIGHT))"
proof (intro conjI allI impI)
  fix pre np post
  assume a: "pipes g = pre @ np # post \<and>
      (\<forall>q \<in> set pre. p_x q + of_int (p_width q) \<le> of_int (b_x (bird g))) \<and>
      of_int (b_x (bird g)) < p_x np + of_int (p_width np)"
  then have "next_pipe (bird g) (pipes g) = Some np"
    unfolding next_pipe_Some by (auto simp: not_less)
  then show "get_state g = (b_y (bird g), b_velocity (bird g), p_x np - of_int (b_x (bird g)),
                     p_top_height np, p_top_height np + p_gap np)"
    by (simp add: get_state_def)
next
  assume "\<forall>q \<in> set (pipes g). p_x q + of_int (p_width q) \<le> of_int (b_x (bird g))"
  then have "next_pipe (bird g) (pipes g) = None"
    unfolding next_pipe_None by (auto simp: not_less)
  then show "get_state g = (b_y (bird g), b_velocity (bird g), of_int WIDTH, HEIGHT div 2, HEIGHT)"
    by (simp add: get_state_def)
qed

theorem C2_encoded_state_witness:
  "pipes edge_game = [pipes edge_game ! 0] @ (pipes edge_game ! 1) # [] \<and>
   p_x (pipes edge_game ! 0) + of_int (p_width (pipes edge_game ! 0)) = of_int (b_x (bird edge_game)) \<and>
   of_int (b_x (bird edge_game)) < p_x (pipes edge_game ! 1) + of_int (p_width (pipes edge_game ! 1)) \<and>
   get_state edge_game = (300, 0, 233, 250, 450) \<and>
   get_state (no_pipes_game 300) = (300, 0, 400, 300, 600)"
proof -
  have a: "pipes edge_game = [pipes edge_game ! 0] @ (pipes edge_game ! 1) # []"
    and b: "p_x (pipes edge_game ! 0) + of_int (p_width (pipes edge_game ! 0)) = of_int (b_x (bird edge_game))"
    and c: "of_int (b_x (bird edge_game)) < p_x (pipes edge_game ! 1) + of_int (p_width (pipes edge_game ! 1))"
    by (simp_all add: edge_game_def fresh_game_def Bird_init_def)
  have d: "pipes (no_pipes_game 300) = []" by (simp add: no_pipes_game_def)
  from C2_encoded_state[of edge_game] a b c
  have "get_state edge_game = (b_y (bird edge_game), b_velocity (bird edge_game),
          p_x (pipes edge_game ! 1) - of_int (b_x (bird edge_game)),
          p_top_height (pipes edge_game ! 1),
          p_top_height (pipes edge_game ! 1) + p_gap (pipes edge_game ! 1))"
    by (metis empty_iff empty_set order_refl set_ConsD)
  then have e: "get_state edge_game = (300, 0, 233, 250, 450)"
    by (simp add: edge_game_def fresh_game_def Bird_init_def HEIGHT_def)
  from C2_encoded_state[of "no_pipes_game 300"] d
  have "get_state (no_pipes_game 300) = (b_y (bird (no_pipes_game 300)),
          b_velocity (bird (no_pipes_game 300)), of_int WIDTH, HEIGHT div 2, HEIGHT)"
    by simp
  then have f: "get_state (no_pipes_game 300) = (300, 0, 400, 300, 600)"
    by (simp add: no_pipes_game_def fresh_game_def Bird_init_def HEIGHT_def WIDTH_def)
  from a b c e f show ?thesis by blast
qed

subsection \<open>The collision test (C5)\<close>

text \<open>
  Claim C5 tests the square of side \<open>size\<close> centred on the bird against the two
  rectangles. The bird at \<open>y = 285.5\<close> has the exact box \<open>[270.5, 300.5]\<close>, which
  reaches into the bottom rectangle starting at 300; \<open>pygame.Rect\<close> stores the top as
  270, the box ends at 300 and \<open>collides_with\<close> is false.
\<close>

theorem C5_counterexample:
  "collides_spec grazed_pipe grazing_bird \<and> \<not> collides_with grazed_pipe grazing_bird"
  by code_simp

lemma trunc_of_int: "trunc (of_int n) = n"
  by (simp add: trunc_def)

lemma trunc_zero: "trunc 0 = 0"
  by (simp add: trunc_def)

lemma colliderect_positive:
  assumes "0 < r_w A" and "0 < r_h A" and "0 < r_w B" and "0 < r_h B"
  shows "colliderect A B \<longleftrightarrow> rect_overlap A B"
  using assms by (auto simp: colliderect_def rect_overlap_def min_def max_def)

lemma collides_with_rects:
  assumes "0 < b_size b" and "0 < p_width p" and "0 < p_top_height p"
    and "0 < HEIGHT - p_top_height p - p_gap p"
  shows "collides_with p b \<longleftrightarrow>
           rect_overlap
             \<lparr>r_x = b_x b - b_size b div 2, r_y = trunc (b_y b - of_int (b_size b div 2)),
              r_w = b_size b, r_h = b_size b\<rparr>
             \<lparr>r_x = trunc (p_x p), r_y = 0, r_w = p_width p, r_h = p_top_height p\<rparr> \<or>
           rect_overlap
             \<lparr>r_x = b_x b - b_size b div 2, r_y = trunc (b_y b - of_int (b_size b div 2)),
              r_w = b_size b, r_h = b_size b\<rparr>
             \<lparr>r_x = trunc (p_x p), r_y = p_top_height p + p_gap p, r_w = p_width p,
              r_h = HEIGHT - p_top_height p - p_gap p\<rparr>"
proof -
  have br: "get_rect b =
      \<lparr>r_x = b_x b - b_size b div 2, r_y = trunc (b_y b - of_int (b_size b div 2)),
       r_w = b_size b, r_h = b_size b\<rparr>"
    by (simp only: get_rect_def pygame_Rect_def trunc_of_int)
  have tr: "pygame_Rect (p_x p) 0 (of_int (p_width p)) (of_int (p_top_height p)) =
      \<lparr>r_x = trunc (p_x p), r_y = 0, r_w = p_width p, r_h = p_top_height p\<rparr>"
    by (simp only: pygame_Rect_def trunc_of_int trunc_zero)
  have bo: "pygame_Rect (p_x p) (of_int (p_top_height p + p_gap p)) (of_int (p_width p))
              (of_int (HEIGHT - p_top_height p - p_gap p)) =
      \<lparr>r_x = trunc (p_x p), r_y = p_top_height p + p_gap p, r_w = p_width p,
       r_h = HEIGHT - p_top_height p - p_gap p\<rparr>"
    by (simp only: pygame_Rect_def trunc_of_int)
  show ?thesis
    unfolding collides_with_def Let_def br tr bo
    using assms by (simp add: colliderect_positive)
qed

text \<open>On whole-number coordinates the two tests agree.\<close>

lemma collides_whole:
  assumes "0 < b_size b" and "0 < p_width p" and "0 < p_top_height p"
    and "0 < HEIGHT - p_top_height p - p_gap p"
    and "even (b_size b)" and "b_y b = of_int yi" and "p_x p = of_int xi"
  shows "collides_with p b \<longleftrightarrow> collides_spec p b"
proof -
  from assms(5) obtain h where h: "b_size b = 2 * h" by (auto elim: evenE)
  have half: "(of_int (b_size b) :: rat) / 2 = of_int h" by (simp add: h)
  have d: "b_size b div 2 = h" by (simp add: h)
  have t: "trunc (of_int yi - of_int h) = yi - h"
    using trunc_of_int[of "yi - h"] by simp
  have lt: "(of_int a :: rat) < of_int c + 2 * of_int e \<longleftrightarrow> a < c + 2 * e" for a c e :: int
  proof -
    have "(of_int c :: rat) + 2 * of_int e = of_int (c + 2 * e)" by simp
    then show ?thesis by (simp only: of_int_less_iff)
  qed
  have lt0: "(0 :: rat) < of_int c + 2 * of_int e \<longleftrightarrow> 0 < c + 2 * e" for c e :: int
    using lt[of 0 c e] by simp
  show ?thesis
    unfolding collides_with_rects[OF assms(1-4)] collides_spec_def bird_box_def
      rect_overlap_def aabb_overlap.simps half d assms(6,7) t trunc_of_int
    by (simp add: h lt lt0 flip: of_int_add of_int_diff)
qed

text \<open>
  Claim C5, amended. For a bird of positive size and a pipe whose rectangles have positive
  sizes, \<open>collides_with\<close> is true exactly when the integer box of the bird (left
  \<open>x - size // 2\<close>, top \<open>y - size // 2\<close> truncated toward zero, side \<open>size\<close>) overlaps
  strictly the top rectangle \<open>(x, 0, width, top_height)\<close> or the bottom rectangle
  \<open>(x, top_height + gap, width, HEIGHT - top_height - gap)\<close> of the pipe, the pipe's
  \<open>x\<close> truncated toward zero; rectangles that only touch do not overlap. When the
  size is even and the bird's \<open>y\<close> and the pipe's \<open>x\<close> are whole numbers, this is the
  overlap test on the exact square centred on the bird.
\<close>

theorem C5_collision_on_integer_boxes:
  assumes "0 < b_size b" and "0 < p_width p" and "0 < p_top_height p"
    and "0 < HEIGHT - p_top_height p - p_gap p"
  shows "(collides_with p b \<longleftrightarrow>
           rect_overlap
             \<lparr>r_x = b_x b - b_size b div 2, r_y = trunc (b_y b - of_int (b_size b div 2)),
              r_w = b_size b, r_h = b_size b\<rparr>
             \<lparr>r_x = trunc (p_x p), r_y = 0, r_w = p_width p, r_h = p_top_height p\<rparr> \<or>
           rect_overlap
             \<lparr>r_x = b_x b - b_size b div 2, r_y = trunc (b_y b - of_int (b_size b div 2)),
              r_w = b_size b, r_h = b_size b\<rparr>
             \<lparr>r_x = trunc (p_x p), r_y = p_top_height p + p_gap p, r_w = p_width p,
              r_h = HEIGHT - p_top_height p - p_gap p\<rparr>) \<and>
         (even (b_size b) \<and> b_y b = of_int yi \<and> p_x p = of_int xi \<longrightarrow>
            (collides_with p b \<longleftrightarrow> collides_spec p b))"
  using collides_with_rects[OF assms] collides_whole[OF assms] by blast

theorem C5_collision_on_integer_boxes_witness:
  "0 < b_size struck_bird \<and> 0 < p_width grazed_pipe \<and> 0 < p_top_height grazed_pipe \<and>
   0 < HEIGHT - p_top_height grazed_pipe - p_gap grazed_pipe \<and>
   even (b_size struck_bird) \<and> b_y struck_bird = of_int 286 \<and> p_x grazed_pipe = of_int 60 \<and>
   collides_spec grazed_pipe struck_bird \<and> collides_with grazed_pipe struck_bird"
proof -
  have h: "0 < b_size struck_bird" "0 < p_width grazed_pipe" "0 < p_top_height grazed_pipe"
    "0 < HEIGHT - p_top_height grazed_pipe - p_gap grazed_pipe"
    by (simp_all add: struck_bird_def grazed_pipe_def Bird_init_def HEIGHT_def)
  have w: "even (b_size struck_bird)" "b_y struck_bird = of_int 286"
    "p_x grazed_pipe = of_int 60"
    by (simp_all add: struck_bird_def grazed_pipe_def Bird_init_def)
  have s: "collides_spec grazed_pipe struck_bird"
    by (simp add: collides_spec_def bird_box_def struck_bird_def grazed_pipe_def Bird_init_def
        HEIGHT_def)
  from C5_collision_on_integer_boxes[OF h, of 286 60] w s
  have "collides_with grazed_pipe struck_bird" by blast
  with h w s show ?thesis by blast
qed

subsection \<open>Rejecting an oversized gap (C3)\<close>

lemma Pipe_init_sound:
  assumes "Pipe_init x0 pg r = Inr np"
  shows "pg \<le> HEIGHT - 200 \<and> p_gap np = pg \<and> sound_pipe np \<and> p_x np = of_int x0 \<and>
         p_width np = 70 \<and> \<not> p_passed np"
proof -
  have le: "pg \<le> HEIGHT - 200"
  proof (rule ccontr)
    assume "\<not> pg \<le> HEIGHT - 200"
    then have "Pipe_init x0 pg r = Inl ValueError" by (simp add: Pipe_init_Inl)
    with assms show False by simp
  qed
  then have m: "0 < HEIGHT - pg - 199" by simp
  have lo: "0 \<le> r mod (HEIGHT - pg - 199)" using m by simp
  have hi: "r mod (HEIGHT - pg - 199) < HEIGHT - pg - 199" using m by simp
  from assms Pipe_init_Inr[OF le, of x0 r]
  have np: "np = \<lparr>p_x = of_int x0, p_width = 70, p_gap = pg,
       p_top_height = 100 + r mod (HEIGHT - pg - 199), p_speed = 3, p_passed = False\<rparr>"
    by simp
  show ?thesis using le lo hi by (simp add: np sound_pipe_def)
qed

lemma moved_shape:
  "p_top_height (moved cs p) = p_top_height p" "p_gap (moved cs p) = p_gap p"
  "p_width (moved cs p) = p_width p" "p_x (moved cs p) = p_x p - cs"
  "p_passed (moved cs p) = p_passed p"
  by (simp_all add: moved_def Pipe_update_def)

lemma tick_shape:
  "p_top_height (tick cs b p) = p_top_height p" "p_gap (tick cs b p) = p_gap p"
  "p_width (tick cs b p) = p_width p" "p_x (tick cs b p) = p_x p - cs"
  by (simp_all add: tick_def moved_shape)

lemma sound_pipe_moved: "sound_pipe (moved cs p) = sound_pipe p"
  by (simp add: sound_pipe_def moved_shape)

lemma sound_pipe_tick: "sound_pipe (tick cs b p) = sound_pipe p"
  by (simp add: sound_pipe_def tick_shape)

lemma after_hit_pipes_from:
  assumes "p' \<in> set (pipes (after_hit action g))"
  shows "\<exists>q \<in> set (pipes g). p' = tick (ramp_speed g) (moved_bird action g) q \<or>
           p' = moved (ramp_speed g) q \<or> p' = q"
proof -
  let ?P = "clear (ramp_speed g) (moved_bird action g)"
  from assms have
    "p' \<in> tick (ramp_speed g) (moved_bird action g) ` set (takeWhile ?P (pipes g)) \<or>
     p' \<in> set (case dropWhile ?P (pipes g) of [] \<Rightarrow> []
                | p # post \<Rightarrow> moved (ramp_speed g) p # post)"
    by (auto simp: after_hit_def Let_def)
  then show ?thesis
  proof
    assume "p' \<in> tick (ramp_speed g) (moved_bird action g) ` set (takeWhile ?P (pipes g))"
    then show ?thesis by (auto dest: set_takeWhileD)
  next
    assume a: "p' \<in> set (case dropWhile ?P (pipes g) of [] \<Rightarrow> []
                | p # post \<Rightarrow> moved (ramp_speed g) p # post)"
    show ?thesis
    proof (cases "dropWhile ?P (pipes g)")
      case Nil
      with a show ?thesis by simp
    next
      case (Cons p post)
      have sub: "set (p # post) \<subseteq> set (pipes g)"
        using set_dropWhileD[of _ ?P "pipes g"] Cons by auto
      from a Cons have "p' = moved (ramp_speed g) p \<or> p' \<in> set post" by simp
      with sub show ?thesis by auto
    qed
  qed
qed

lemma step_sound:
  assumes "step r action g = Inr (g', out)" and "sound_game g"
  shows "sound_game g'"
proof (cases "hits action g")
  case True
  with assms(1) have g': "g' = after_hit action g" by (simp add: step_hit)
  have pg: "pipe_gap g' = pipe_gap g" by (simp add: g' after_hit_def ticked_def Let_def)
  have "p_gap p' = pipe_gap g \<and> sound_pipe p'" if "p' \<in> set (pipes g')" for p'
  proof -
    from that after_hit_pipes_from[of p' action g] obtain q where q: "q \<in> set (pipes g)"
      and e: "p' = tick (ramp_speed g) (moved_bird action g) q \<or>
              p' = moved (ramp_speed g) q \<or> p' = q"
      unfolding g' by blast
    from q assms(2) have "p_gap q = pipe_gap g \<and> sound_pipe q" by (simp add: sound_game_def)
    with e show ?thesis
      by (auto simp: sound_pipe_moved sound_pipe_tick moved_shape tick_shape)
  qed
  with pg assms(2) show ?thesis by (simp add: sound_game_def)
next
  case False
  from assms(1) False obtain ps2 where
    sp: "spawn r (ramp_speed g) (pipe_distance g) (pipe_gap g) (survivors action g) = Inr ps2"
    and g': "g' = after_clear action g ps2 \<or> g' = (after_clear action g ps2)\<lparr>game_over := True\<rparr>"
    by (auto simp: step_clear split: sum.splits if_splits)
  from g' have pg: "pipe_gap g' = pipe_gap g" and ps: "pipes g' = ps2"
    by (auto simp: after_clear_def ticked_def)
  have surv: "p_gap p' = pipe_gap g \<and> sound_pipe p'" if "p' \<in> set (survivors action g)" for p'
  proof -
    from that obtain q where q: "q \<in> set (pipes g)"
      and e: "p' = tick (ramp_speed g) (moved_bird action g) q"
      by (auto simp: survivors_def)
    from q assms(2) have "p_gap q = pipe_gap g \<and> sound_pipe q" by (simp add: sound_game_def)
    with e show ?thesis by (simp add: sound_pipe_tick tick_shape)
  qed
  have "p_gap p' = pipe_gap g \<and> sound_pipe p'" if "p' \<in> set ps2" for p'
  proof (cases "p' \<in> set (survivors action g)")
    case True
    then show ?thesis by (rule surv)
  next
    case False
    with sp that obtain np where np: "Pipe_init WIDTH (pipe_gap g) r = Inr np"
      and e: "p' = np\<lparr>p_speed := ramp_speed g\<rparr>"
      by (auto simp: spawn_def split: if_splits sum.splits)
    from Pipe_init_sound[OF np] e show ?thesis by (simp add: sound_pipe_def)
  qed
  with pg ps assms(2) show ?thesis by (simp add: sound_game_def)
qed

lemma reset_sound:
  assumes "reset r g = Inr (g', s)"
  shows "sound_game g' \<and> pipe_gap g' = pipe_gap g"
proof -
  from assms obtain np where np: "Pipe_init (WIDTH + 200) (pipe_gap g) r = Inr np"
    and g': "g' = g\<lparr>bird := Bird_init, pipes := [np\<lparr>p_speed := base_speed g\<rparr>], score := 0,
                      game_over := False, current_speed := base_speed g,
                      frames_elapsed := 0\<rparr>"
    by (auto simp: reset_def Let_def split: sum.splits)
  from Pipe_init_sound[OF np] show ?thesis
    by (simp add: g' sound_game_def sound_pipe_def)
qed

lemma reset_total:
  assumes "pipe_gap g \<le> HEIGHT - 200"
  shows "\<exists>res. reset r g = Inr res"
proof -
  obtain np where "Pipe_init (WIDTH + 200) (pipe_gap g) r = Inr np"
    using Pipe_init_Inr[OF assms] by blast
  then show ?thesis by (simp only: reset_def Let_def sum.case) blast
qed

lemma run_sound: "sound_game g \<Longrightarrow> \<exists>g'. run cs g = Inr g' \<and> sound_game g'"
proof (induction cs arbitrary: g)
  case Nil
  then show ?case by simp
next
  case (Cons c cs)
  from Cons.prems have gap: "pipe_gap g \<le> HEIGHT - 200" by (simp add: sound_game_def)
  show ?case
  proof (cases c)
    case (Reset r)
    from reset_total[OF gap, of r] obtain g1 s where r1: "reset r g = Inr (g1, s)" by fastforce
    from reset_sound[OF r1] have "sound_game g1" by simp
    from Cons.IH[OF this] show ?thesis by (simp add: Reset r1)
  next
    case (Step r a)
    from step_total[OF gap, of r a] obtain g1 out where s1: "step r a g = Inr (g1, out)"
      by fastforce
    from step_sound[OF s1 Cons.prems] have "sound_game g1" .
    from Cons.IH[OF this] show ?thesis by (simp add: Step s1)
  qed
qed

lemma init_Inl: "HEIGHT - 200 < pg \<Longrightarrow> FlappyBirdGame_init pd pg rate r = Inl ValueError"
  by (simp add: FlappyBirdGame_init_def reset_def Pipe_init_Inl)

lemma init_sound:
  assumes "FlappyBirdGame_init pd pg rate r = Inr g"
  shows "sound_game g \<and> pipe_gap g = pg \<and> pipe_distance g = pd \<and>
         speed_increase_rate g = rate \<and> base_speed g = 3"
proof -
  let ?g0 = "\<lparr>bird = Bird_init, pipes = [], score = 0, game_over = False,
                    current_speed = 3, frames_elapsed = 0, pipe_distance = pd,
                    pipe_gap = pg, speed_increase_rate = rate, base_speed = 3\<rparr>"
  from assms obtain s where r: "reset r ?g0 = Inr (g, s)"
    by (auto simp: FlappyBirdGame_init_def split: sum.splits)
  from reset_sound[OF r] have a: "sound_game g \<and> pipe_gap g = pg" by simp
  from r have "pipe_distance g = pd \<and> speed_increase_rate g = rate \<and> base_speed g = 3"
    by (auto simp: reset_def Let_def split: sum.splits)
  with a show ?thesis by simp
qed

text \<open>
  Claim C3. With a pipe gap above \<open>HEIGHT - 200\<close> the constructor raises \<open>ValueError\<close>
  (from \<open>random.randint\<close> on the empty range, inside \<open>Pipe.__init__\<close>), so no engine is
  built. Whenever the constructor returns an engine, the gap is at most \<open>HEIGHT - 200\<close>,
  and after any sequence of \<open>reset\<close> and \<open>step\<close> calls, none of which raises, every pipe
  has the configured gap and a top height in \<open>[100, HEIGHT - gap - 100]\<close>.
\<close>

theorem C3_oversized_gap_rejected:
  "(HEIGHT - 200 < pg \<longrightarrow> FlappyBirdGame_init pd pg rate r = Inl ValueError) \<and>
   (\<forall>g. FlappyBirdGame_init pd pg rate r = Inr g \<longrightarrow>
      pg \<le> HEIGHT - 200 \<and>
      (\<forall>cs. \<exists>g'. run cs g = Inr g' \<and>
         (\<forall>p \<in> set (pipes g'). p_gap p = pg \<and> sound_pipe p)))"
proof (intro conjI impI allI)
  assume "HEIGHT - 200 < pg"
  then show "FlappyBirdGame_init pd pg rate r = Inl ValueError" by (rule init_Inl)
next
  fix g
  assume i: "FlappyBirdGame_init pd pg rate r = Inr g"
  from init_sound[OF i] have s: "sound_game g" and pg: "pipe_gap g = pg" by simp_all
  from s pg show "pg \<le> HEIGHT - 200" by (simp add: sound_game_def)
next
  fix g cs
  assume i: "FlappyBirdGame_init pd pg rate r = Inr g"
  from init_sound[OF i] have s: "sound_game g" and pg: "pipe_gap g = pg" by simp_all
  from run_sound[OF s, of cs] obtain g' where r: "run cs g = Inr g'" and s': "sound_game g'"
    by blast
  have "pipe_gap g' = pg"
    using r pg
  proof (induction cs arbitrary: g)
    case Nil
    then show ?case by simp
  next
    case (Cons c cs)
    show ?case
    proof (cases c)
      case (Reset r0)
      with Cons.prems(1) obtain g1 s1 where r1: "reset r0 g = Inr (g1, s1)"
        and r2: "run cs g1 = Inr g'" by (auto split: sum.splits)
      from reset_sound[OF r1] Cons.prems(2) have "pipe_gap g1 = pg" by simp
      from Cons.IH[OF r2 this] show ?thesis .
    next
      case (Step r0 a)
      with Cons.prems(1) obtain g1 out where s1: "step r0 a g = Inr (g1, out)"
        and r2: "run cs g1 = Inr g'" by (auto split: sum.splits)
      from step_pipe_gap[OF s1] Cons.prems(2) have "pipe_gap g1 = pg" by simp
      from Cons.IH[OF r2 this] show ?thesis .
    qed
  qed
  with r s' show "\<exists>g'. run cs g = Inr g' \<and> (\<forall>p \<in> set (pipes g'). p_gap p = pg \<and> sound_pipe p)"
    by (auto simp: sound_game_def)
qed

theorem C3_oversized_gap_rejected_witness:
  "HEIGHT - 200 < 401 \<and> FlappyBirdGame_init 300 401 0 7 = Inl ValueError \<and>
   FlappyBirdGame_init 300 200 0 0 = Inr fresh_game \<and>
   (\<exists>g'. run [Step 0 0, Reset 5, Step 3 1] fresh_game = Inr g' \<and>
      pipes g' = [\<lparr>p_x = 597, p_width = 70, p_gap = 200, p_top_height = 105, p_speed = 3,
                   p_passed = False\<rparr>] \<and>
      sound_pipe (hd (pipes g')))"
proof -
  have big: "HEIGHT - 200 < 401" by (simp add: HEIGHT_def)
  have ok: "FlappyBirdGame_init 300 200 0 0 = Inr fresh_game"
    by (simp add: FlappyBirdGame_init_def fresh_game_def model_defs)
  from C3_oversized_gap_rejected[of 200 300 0 0] ok
  obtain g' where r: "run [Step 0 0, Reset 5, Step 3 1] fresh_game = Inr g'"
    and s: "\<forall>p \<in> set (pipes g'). p_gap p = 200 \<and> sound_pipe p"
    by blast
  have "run [Step 0 0, Reset 5, Step 3 1] fresh_game =
      Inr (fresh_game\<lparr>bird := Bird_init\<lparr>b_y := 581 / 2, b_velocity := - (19 / 2)\<rparr>,
             pipes := [\<lparr>p_x = 597, p_width = 70, p_gap = 200, p_top_height = 105,
                        p_speed = 3, p_passed = False\<rparr>],
             frames_elapsed := 1\<rparr>)"
    by (simp add: fresh_game_def model_defs)
  with r have p: "pipes g' = [\<lparr>p_x = 597, p_width = 70, p_gap = 200, p_top_height = 105,
                        p_speed = 3, p_passed = False\<rparr>]"
    by auto
  with s have "sound_pipe (hd (pipes g'))" by simp
  with C3_oversized_gap_rejected[of 401 300 0 7] big ok r p show ?thesis by blast
qed

subsection \<open>The order of the pipe list (C9)\<close>





















subsection \<open>Scoring each pipe once (C6)\<close>

lemma pipe_gains_passed:
  "p_passed p \<Longrightarrow> pipe_gains ts p = map (\<lambda>_. False) (pipe_behind ts p)"
proof (induction ts arbitrary: p)
  case Nil
  show ?case by simp
next
  case (Cons t ts)
  obtain cs b where t: "t = (cs, b)" by (cases t)
  from Cons.prems have m: "p_passed (moved cs p)" by (simp add: moved_shape)
  then have s: "\<not> scores b (moved cs p)" by (simp add: scores_def)
  with m have "p_passed (tick cs b p)" by (simp add: tick_def)
  from Cons.IH[OF this] s show ?case by (simp add: t)
qed

lemma pipe_gains_first:
  "\<not> p_passed p \<Longrightarrow> pipe_gains ts p = first_only (pipe_behind ts p)"
proof (induction ts arbitrary: p)
  case Nil
  show ?case by simp
next
  case (Cons t ts)
  obtain cs b where t: "t = (cs, b)" by (cases t)
  from Cons.prems have m: "\<not> p_passed (moved cs p)" by (simp add: moved_shape)
  show ?case
  proof (cases "p_x (moved cs p) + of_int (p_width (moved cs p)) < of_int (b_x b)")
    case True
    with m have s: "scores b (moved cs p)" by (simp add: scores_def)
    then have "p_passed (tick cs b p)" by (simp add: tick_def)
    from pipe_gains_passed[OF this] s True show ?thesis by (simp add: t)
  next
    case False
    then have s: "\<not> scores b (moved cs p)" by (simp add: scores_def)
    with m have "\<not> p_passed (tick cs b p)" by (simp add: tick_def)
    from Cons.IH[OF this] s False show ?thesis by (simp add: t)
  qed
qed

lemma step_score:
  assumes "step r action g = Inr (g', out)"
  shows "score g' = score g +
           gained (ramp_speed g) (moved_bird action g)
             (takeWhile (clear (ramp_speed g) (moved_bird action g)) (pipes g))"
proof (cases "hits action g")
  case True
  with assms show ?thesis by (auto simp: step_hit after_hit_def Let_def)
next
  case False
  then have tw: "takeWhile (clear (ramp_speed g) (moved_bird action g)) (pipes g) = pipes g"
    by (auto simp: hits_def takeWhile_eq_all_conv)
  from assms False have
    "score g' = score g + gained (ramp_speed g) (moved_bird action g) (pipes g)"
    by (auto simp: step_clear after_clear_def split: sum.splits if_splits)
  then show ?thesis by (simp only: tw)
qed

lemma step_score_mono: "step r action g = Inr (g', out) \<Longrightarrow> score g \<le> score g'"
  by (simp add: step_score gained_def)

lemma steps_score_mono: "steps cs g = Inr g' \<Longrightarrow> score g \<le> score g'"
proof (induction cs arbitrary: g)
  case Nil
  then show ?case by simp
next
  case (Cons c cs)
  obtain r a where c: "c = (r, a)" by (cases c)
  from Cons.prems obtain g1 out
    where s: "step r a g = Inr (g1, out)" and t: "steps cs g1 = Inr g'"
    by (auto simp: c split: sum.splits)
  from step_score_mono[OF s] Cons.IH[OF t] show ?case by simp
qed

lemma step_clear_fresh:
  assumes "\<not> hits action g" and "step r action g = Inr (g', out)"
  shows "\<exists>new. pipes g' =
           filter (\<lambda>p. \<not> off_screen p)
             (map (tick (ramp_speed g) (moved_bird action g)) (pipes g)) @ new \<and>
           list_all (\<lambda>n. \<not> p_passed n) new"
proof -
  from assms obtain ps2 where
    sp: "spawn r (ramp_speed g) (pipe_distance g) (pipe_gap g) (survivors action g) = Inr ps2"
    and g': "g' = after_clear action g ps2 \<or> g' = (after_clear action g ps2)\<lparr>game_over := True\<rparr>"
    by (auto simp: step_clear split: sum.splits if_splits)
  from g' have ps: "pipes g' = ps2" by (auto simp: after_clear_def ticked_def)
  show ?thesis
  proof (cases "ps2 = survivors action g")
    case True
    with ps show ?thesis by (simp add: survivors_def)
  next
    case False
    with sp obtain np where np: "Pipe_init WIDTH (pipe_gap g) r = Inr np"
      and e: "ps2 = survivors action g @ [np\<lparr>p_speed := ramp_speed g\<rparr>]"
      by (auto simp: spawn_def split: if_splits sum.splits)
    from Pipe_init_sound[OF np] have "\<not> p_passed (np\<lparr>p_speed := ramp_speed g\<rparr>)" by simp
    with e ps show ?thesis by (simp add: survivors_def)
  qed
qed

lemma reset_fresh:
  assumes "reset r g = Inr (g', s)"
  shows "score g' = 0 \<and> list_all (\<lambda>n. \<not> p_passed n) (pipes g')"
proof -
  from assms obtain np where np: "Pipe_init (WIDTH + 200) (pipe_gap g) r = Inr np"
    and g': "g' = g\<lparr>bird := Bird_init, pipes := [np\<lparr>p_speed := base_speed g\<rparr>], score := 0,
                      game_over := False, current_speed := base_speed g,
                      frames_elapsed := 0\<rparr>"
    by (auto simp: reset_def Let_def split: sum.splits)
  from Pipe_init_sound[OF np] show ?thesis by (simp add: g')
qed

text \<open>
  Claim C6. Follow one pipe that has not been scored through the steps in which the pipe
  loop reaches its scoring test: the step that adds its point is the first one in which its
  trailing edge \<open>x + width\<close> is strictly left of the bird's x after the update, and no
  later step adds a point for it. Every returning step adds to the score exactly one point
  for each pipe it scores, among the pipes before the first colliding one (all pipes when
  none collides). In a step without collision the pipes that stay are the old ones, moved
  and flagged, and an appended pipe has not been scored; \<open>reset\<close> zeroes the score and
  leaves one pipe that has not been scored. So over any run of steps the score, an
  integer, never decreases.
\<close>

theorem C6_each_pipe_scores_once:
  "(\<not> p_passed p \<longrightarrow> pipe_gains ts p = first_only (pipe_behind ts p)) \<and>
   (\<forall>r action g' out. step r action g = Inr (g', out) \<longrightarrow>
      score g' = score g +
        int (length (filter (\<lambda>q. scores (moved_bird action g) (moved (ramp_speed g) q))
               (takeWhile (clear (ramp_speed g) (moved_bird action g)) (pipes g)))) \<and>
      (\<not> hits action g \<longrightarrow>
         (\<exists>new. pipes g' =
            filter (\<lambda>q. \<not> off_screen q)
              (map (tick (ramp_speed g) (moved_bird action g)) (pipes g)) @ new \<and>
            list_all (\<lambda>n. \<not> p_passed n) new))) \<and>
   (\<forall>r g' s. reset r g = Inr (g', s) \<longrightarrow>
      score g' = 0 \<and> list_all (\<lambda>n. \<not> p_passed n) (pipes g')) \<and>
   (\<forall>cs g'. steps cs g = Inr g' \<longrightarrow> score g \<le> score g')"
proof (intro conjI allI impI)
  assume "\<not> p_passed p"
  then show "pipe_gains ts p = first_only (pipe_behind ts p)" by (rule pipe_gains_first)
next
  fix r action g' out
  assume "step r action g = Inr (g', out)"
  from step_score[OF this]
  show "score g' = score g +
        int (length (filter (\<lambda>q. scores (moved_bird action g) (moved (ramp_speed g) q))
               (takeWhile (clear (ramp_speed g) (moved_bird action g)) (pipes g))))"
    by (simp add: gained_def)
next
  fix r action g' out
  assume "step r action g = Inr (g', out)" and "\<not> hits action g"
  from step_clear_fresh[OF this(2,1)]
  show "\<exists>new. pipes g' =
            filter (\<lambda>q. \<not> off_screen q)
              (map (tick (ramp_speed g) (moved_bird action g)) (pipes g)) @ new \<and>
            list_all (\<lambda>n. \<not> p_passed n) new" .
next
  fix r g' s
  assume "reset r g = Inr (g', s)"
  then show "score g' = 0" by (rule reset_fresh[THEN conjunct1])
next
  fix r g' s
  assume "reset r g = Inr (g', s)"
  then show "list_all (\<lambda>n. \<not> p_passed n) (pipes g')" by (rule reset_fresh[THEN conjunct2])
next
  fix cs g'
  assume "steps cs g = Inr g'"
  then show "score g \<le> score g'" by (rule steps_score_mono)
qed

theorem C6_each_pipe_scores_once_witness:
  "\<not> p_passed near_pipe \<and>
   pipe_behind [(3, Bird_init), (3, Bird_init), (3, Bird_init), (3, Bird_init)] near_pipe =
     [False, True, True, True] \<and>
   pipe_gains [(3, Bird_init), (3, Bird_init), (3, Bird_init), (3, Bird_init)] near_pipe =
     [False, True, False, False] \<and>
   \<not> hits 0 passing_game \<and> score passing_game = 0 \<and>
   (\<exists>g' out. step 0 0 passing_game = Inr (g', out) \<and> score g' = 1 \<and>
      map p_passed (pipes g') = [True, False, False, False]) \<and>
   (\<exists>g'. steps [(0, 0), (0, 0)] passing_game = Inr g' \<and> score passing_game \<le> score g')"
proof -
  let ?ts = "[(3, Bird_init), (3, Bird_init), (3, Bird_init), (3, Bird_init)]"
  note inst = C6_each_pipe_scores_once[of near_pipe ?ts passing_game]
  have np: "\<not> p_passed near_pipe" by (simp add: near_pipe_def)
  have beh: "pipe_behind ?ts near_pipe = [False, True, True, True]" by code_simp
  from inst np have "pipe_gains ?ts near_pipe = first_only (pipe_behind ?ts near_pipe)" by blast
  with beh have gains: "pipe_gains ?ts near_pipe = [False, True, False, False]" by simp
  have nh: "\<not> hits 0 passing_game" by code_simp
  have sc0: "score passing_game = 0"
    by (simp add: passing_game_def crossing_game_def fresh_game_def)
  have st: "map_sum id (\<lambda>(g', out). map p_passed (pipes g')) (step 0 0 passing_game) =
              Inr [True, False, False, False]"
    by code_simp
  then obtain g1 out where s1: "step 0 0 passing_game = Inr (g1, out)"
    and ps: "map p_passed (pipes g1) = [True, False, False, False]"
    by (cases "step 0 0 passing_game") auto
  have cnt: "int (length (filter (\<lambda>q. scores (moved_bird 0 passing_game)
                                      (moved (ramp_speed passing_game) q))
               (takeWhile (clear (ramp_speed passing_game) (moved_bird 0 passing_game))
                  (pipes passing_game)))) = 1"
    by code_simp
  from inst s1 have "score g1 = score passing_game +
      int (length (filter (\<lambda>q. scores (moved_bird 0 passing_game)
                                      (moved (ramp_speed passing_game) q))
               (takeWhile (clear (ramp_speed passing_game) (moved_bird 0 passing_game))
                  (pipes passing_game))))"
    by blast
  then have sc1: "score g1 = 1" by (simp only: cnt sc0)
  have "\<exists>g'. steps [(0, 0), (0, 0)] passing_game = Inr g'"
  proof -
    have "map_sum id score (steps [(0, 0), (0, 0)] passing_game) = Inr 1" by code_simp
    then show ?thesis by (cases "steps [(0, 0), (0, 0)] passing_game") auto
  qed
  then obtain g2 where s2: "steps [(0, 0), (0, 0)] passing_game = Inr g2" by blast
  from inst s2 have mono: "score passing_game \<le> score g2" by blast
  have e1: "\<exists>g' out. step 0 0 passing_game = Inr (g', out) \<and> score g' = 1 \<and>
      map p_passed (pipes g') = [True, False, False, False]"
  proof (intro exI conjI)
    show "step 0 0 passing_game = Inr (g1, out)" by (rule s1)
    show "score g1 = 1" by (rule sc1)
    show "map p_passed (pipes g1) = [True, False, False, False]" by (rule ps)
  qed
  have e2: "\<exists>g'. steps [(0, 0), (0, 0)] passing_game = Inr g' \<and> score passing_game \<le> score g'"
  proof (intro exI conjI)
    show "steps [(0, 0), (0, 0)] passing_game = Inr g2" by (rule s2)
    show "score passing_game \<le> score g2" by (rule mono)
  qed
  show ?thesis
    by (intro conjI) (rule np beh gains nh sc0 e1 e2)+
qed

end
